theory Spec2Isabelle
  imports Complex_Main "HOL-Library.Char_ord" "HOL-Library.List_Lexorder"
begin

section \<open>Python values read from the input tables\<close>

text \<open>
  The knowledge-graph builder \<^verbatim>\<open>KnowledgeGraphBuilder\<close> of \<^verbatim>\<open>src/graph/builder.py\<close>
  reads six CSV tables with pandas and works on the cells of their rows. A float is
  modelled by its IEEE class: a finite value (carried as an exact real, so rounding and
  overflow of finite arithmetic are not modelled), the two infinities, and NaN.
\<close>

datatype fl = Fin real | PInf | NInf | NaN

text \<open>A cell of a row: what \<^verbatim>\<open>row.get(k)\<close> can hand back.\<close>

datatype cell = CNone | CBool bool | CInt int | CFloat fl | CStr string

datatype error =
    FileNotFoundError string
  | TypeError
  | ValueError
  | OverflowError
  | CsvError

text \<open>
  A cell of a text column (an identifier, a name, a label): a string, or the float NaN
  that pandas puts where the cell is empty. The empty cells of a text column all hold the
  one object \<^verbatim>\<open>numpy.nan\<close>, which a dictionary or a set finds by identity, so as a key
  \<open>Blank\<close> is equal to itself.
\<close>

datatype tcell = Text string | Blank

type_synonym ident = tcell

text \<open>\<^verbatim>\<open>str(v)\<close> and \<^verbatim>\<open>bool(v)\<close> of such a cell.\<close>

definition py_str :: "tcell \<Rightarrow> string" where
  "py_str v = (case v of Text s \<Rightarrow> s | Blank \<Rightarrow> ''nan'')"

definition truthy :: "tcell \<Rightarrow> bool" where
  "truthy v = (v \<noteq> Text [])"
type_synonym row = "string \<rightharpoonup> cell"

text \<open>
  \<^verbatim>\<open>float(v)\<close>. What Python's parser makes of a string is a parameter \<open>pf\<close>:
  \<open>pf s = None\<close> when \<^verbatim>\<open>float(s)\<close> raises \<^verbatim>\<open>ValueError\<close>.
\<close>

fun py_float :: "(string \<Rightarrow> fl option) \<Rightarrow> cell \<Rightarrow> error + fl" where
  "py_float pf CNone = Inl TypeError"
| "py_float pf (CBool b) = Inr (Fin (if b then 1 else 0))"
| "py_float pf (CInt i) = Inr (Fin (of_int i))"
| "py_float pf (CFloat x) = Inr x"
| "py_float pf (CStr s) = (case pf s of None \<Rightarrow> Inl ValueError | Some x \<Rightarrow> Inr x)"

text \<open>
  \<^verbatim>\<open>int(v)\<close>: truncation towards zero on a finite float, \<^verbatim>\<open>ValueError\<close> on NaN,
  \<^verbatim>\<open>OverflowError\<close> on an infinity; \<open>pint\<close> is Python's parser of integer literals.
\<close>

definition trunc0 :: "real \<Rightarrow> int" where
  "trunc0 r = (if 0 \<le> r then \<lfloor>r\<rfloor> else \<lceil>r\<rceil>)"

fun py_int :: "(string \<Rightarrow> int option) \<Rightarrow> cell \<Rightarrow> error + int" where
  "py_int pint CNone = Inl TypeError"
| "py_int pint (CBool b) = Inr (if b then 1 else 0)"
| "py_int pint (CInt i) = Inr i"
| "py_int pint (CFloat (Fin r)) = Inr (trunc0 r)"
| "py_int pint (CFloat NaN) = Inl ValueError"
| "py_int pint (CFloat PInf) = Inl OverflowError"
| "py_int pint (CFloat NInf) = Inl OverflowError"
| "py_int pint (CStr s) = (case pint s of None \<Rightarrow> Inl ValueError | Some i \<Rightarrow> Inr i)"

text \<open>\<^verbatim>\<open>v == v\<close>: false exactly on a float NaN.\<close>

definition eq_self :: "cell \<Rightarrow> bool" where
  "eq_self v = (v \<noteq> CFloat NaN)"

subsection \<open>\<^verbatim>\<open>_safe\<close>: tolerant coercion of the declared features\<close>

text \<open>
  \<^verbatim>\<open>
  def _safe(self, row, keys):
      out = {}
      for k in keys:
          v = row.get(k, 0.0)
          try:    out[k] = float(v) if (v is not None and v == v) else 0.0
          except: out[k] = 0.0
      return out
  \<close>
  \<open>safe_try\<close> is the body of the \<^verbatim>\<open>try\<close>, which may raise; \<open>safe_value\<close> adds the
  bare \<^verbatim>\<open>except\<close>.
\<close>

definition row_get :: "row \<Rightarrow> string \<Rightarrow> cell \<Rightarrow> cell" where
  "row_get r k dflt = (case r k of None \<Rightarrow> dflt | Some v \<Rightarrow> v)"

definition safe_try :: "(string \<Rightarrow> fl option) \<Rightarrow> cell \<Rightarrow> error + fl" where
  "safe_try pf v = (if v \<noteq> CNone \<and> eq_self v then py_float pf v else Inr (Fin 0))"

definition safe_value :: "(string \<Rightarrow> fl option) \<Rightarrow> row \<Rightarrow> string \<Rightarrow> fl" where
  "safe_value pf r k =
     (case safe_try pf (row_get r k (CFloat (Fin 0))) of
        Inl e \<Rightarrow> Fin 0
      | Inr x \<Rightarrow> x)"

definition safe :: "(string \<Rightarrow> fl option) \<Rightarrow> row \<Rightarrow> string list \<Rightarrow> (string \<rightharpoonup> fl)" where
  "safe pf r keys = fold (\<lambda>k out. out(k \<mapsto> safe_value pf r k)) keys Map.empty"

section \<open>The schema registry (\<^verbatim>\<open>src/graph/schema.py\<close>)\<close>

datatype ntype = Supplier | Component | Country | Contract | Route

datatype relation =
    Supplies | Located_in | Covers | Signed_with | Originates_in
  | Delivers_to | Carries | Co_supplier | Trades_with

text \<open>\<^verbatim>\<open>EDGE_TYPES\<close>: the declared (source type, relation, destination type) triples.\<close>

definition EDGE_TYPES :: "(ntype \<times> relation \<times> ntype) list" where
  "EDGE_TYPES =
    [(Supplier, Supplies, Component),
     (Supplier, Located_in, Country),
     (Contract, Covers, Component),
     (Contract, Signed_with, Supplier),
     (Route, Originates_in, Country),
     (Route, Delivers_to, Country),
     (Route, Carries, Component),
     (Supplier, Co_supplier, Supplier),
     (Country, Trades_with, Country)]"

definition NODE_FEATURE_SPECS :: "(ntype \<times> string list) list" where
  "NODE_FEATURE_SPECS =
    [(Supplier, [''annual_spend_usd'', ''on_time_delivery'', ''quality_score'',
                 ''lead_time_days'', ''defect_rate_ppm'', ''financial_risk_score'',
                 ''sustainability_score'', ''years_active'', ''is_sole_source'',
                 ''is_preferred'', ''headcount'', ''revenue_usd_M'']),
     (Component, [''unit_cost_usd'', ''annual_volume'', ''lead_time_weeks'',
                  ''inventory_days'', ''weight_kg'', ''is_custom'', ''criticality_encoded'']),
     (Country, [''geopolitical_risk'', ''avg_tariff_rate'', ''logistics_index'',
                ''currency_volatility'', ''labor_cost_index'', ''trade_agreements'']),
     (Contract, [''value_usd'', ''savings_realized_usd'', ''sla_penalty_usd'',
                 ''negotiation_rounds'', ''duration_days'', ''is_active'', ''auto_renew'',
                 ''has_rebate'']),
     (Route, [''transit_days'', ''cost_per_kg_usd'', ''reliability_score'',
              ''carbon_kg_per_ton'', ''is_active'', ''customs_delay_days''])]"

definition feature_spec :: "ntype \<Rightarrow> string list" where
  "feature_spec t = (case map_of NODE_FEATURE_SPECS t of None \<Rightarrow> [] | Some fs \<Rightarrow> fs)"

text \<open>\<^verbatim>\<open>CRITICALITY_MAP.get(label, 0)\<close>.\<close>

definition CRITICALITY_MAP :: "(string \<times> int) list" where
  "CRITICALITY_MAP = [(''Low'', 0), (''Medium'', 1), (''High'', 2), (''Critical'', 3)]"

definition criticality_encoded :: "string \<Rightarrow> int" where
  "criticality_encoded s = (case map_of CRITICALITY_MAP s of None \<Rightarrow> 0 | Some n \<Rightarrow> n)"

section \<open>The input tables\<close>

text \<open>
  A row carries the columns the builder reads with \<^verbatim>\<open>row["..."]\<close> as fields (that
  these columns exist and are text columns is the contract with the generator; any of
  their cells may be empty), and the columns read with \<^verbatim>\<open>row.get\<close> as a map of cells.
\<close>

record supplier_row =
  s_supplier_id :: ident
  s_name :: tcell
  s_country :: tcell
  s_category :: tcell
  s_risk_tier :: tcell
  s_cells :: row

record component_row =
  c_component_id :: ident
  c_part_number :: tcell
  c_category :: tcell
  c_criticality :: tcell
  c_cells :: row

record country_row =
  n_country_id :: ident
  n_name :: tcell
  n_cells :: row

record contract_row =
  k_contract_id :: ident
  k_supplier_id :: ident
  k_primary_component_id :: ident
  k_status :: tcell
  k_payment_terms :: tcell
  k_cells :: row

record route_row =
  r_route_id :: ident
  r_origin_country :: tcell
  r_destination_country :: tcell
  r_component_id :: ident
  r_transport_mode :: tcell
  r_cells :: row

record link_row =
  l_supplier_id :: ident
  l_component_id :: ident
  l_is_primary :: cell
  l_unit_price_usd :: cell

text \<open>\<^verbatim>\<open>self._data\<close> once the six tables are loaded.\<close>

record data =
  suppliers :: "supplier_row list"
  components :: "component_row list"
  countries :: "country_row list"
  contracts :: "contract_row list"
  routes :: "route_row list"
  sourcing_links :: "link_row list"

section \<open>The graph\<close>

text \<open>
  The \<^verbatim>\<open>networkx.MultiDiGraph\<close>: its node dictionary in insertion order (nodes of
  all types share one key space) and its edges in the order \<^verbatim>\<open>add_edge\<close> added them.
  \<^verbatim>\<open>G.edges(data=True)\<close> enumerates the same edges grouped by source node; only facts
  that do not depend on that order are stated below.
\<close>

record node_data =
  node_type :: ntype
  label :: tcell
  cats :: "string \<rightharpoonup> tcell"
  feats :: "string \<rightharpoonup> fl"

record edge =
  e_src :: ident
  e_dst :: ident
  e_relation :: relation
  e_is_primary :: "int option"
  e_unit_price_usd :: "fl option"

record graph =
  node_list :: "(ident \<times> node_data) list"
  edge_list :: "edge list"

definition has_node :: "graph \<Rightarrow> ident \<Rightarrow> bool" where
  "has_node g n = (n \<in> set (map fst (node_list g)))"

text \<open>
  \<^verbatim>\<open>G.add_node(nid, **attr)\<close>: a new key is appended; on a key already present the
  attribute dictionary is updated in place, the node keeps its position.
\<close>

definition merge_node :: "node_data \<Rightarrow> node_data \<Rightarrow> node_data" where
  "merge_node old new =
     \<lparr>node_type = node_type new, label = label new,
      cats = cats old ++ cats new, feats = feats old ++ feats new\<rparr>"

definition add_node :: "ident \<Rightarrow> node_data \<Rightarrow> graph \<Rightarrow> graph" where
  "add_node nid nd g =
     (if has_node g nid
      then g\<lparr>node_list := map (\<lambda>(k, old). if k = nid then (k, merge_node old nd) else (k, old))
                                (node_list g)\<rparr>
      else g\<lparr>node_list := node_list g @ [(nid, nd)]\<rparr>)"

definition mk_edge :: "ident \<Rightarrow> ident \<Rightarrow> relation \<Rightarrow> edge" where
  "mk_edge u v rel =
     \<lparr>e_src = u, e_dst = v, e_relation = rel, e_is_primary = None, e_unit_price_usd = None\<rparr>"

definition add_edge :: "edge \<Rightarrow> graph \<Rightarrow> graph" where
  "add_edge e g = g\<lparr>edge_list := edge_list g @ [e]\<rparr>"

section \<open>The builder\<close>

type_synonym matrix = "fl list list"

text \<open>
  The \<^verbatim>\<open>HeteroData\<close> bundle: a feature tensor per node type (\<^verbatim>\<open>data[ntype].x\<close>) and
  a 2 x E edge-index tensor (its two rows) per (source type, relation, destination type).
\<close>

record hetero_data =
  x_of :: "ntype \<rightharpoonup> matrix"
  edge_index :: "(ntype \<times> relation \<times> ntype) \<rightharpoonup> (nat list \<times> nat list)"

text \<open>
  The state of a \<^verbatim>\<open>KnowledgeGraphBuilder\<close>. \<^verbatim>\<open>id_maps\<close> holds one dictionary per node
  type (a type with no entry reads as the empty dictionary, as \<^verbatim>\<open>id_maps.get(t, {})\<close>
  does) and the auxiliary \<^verbatim>\<open>_country_by_name\<close>.
\<close>

record builder =
  G :: graph
  id_maps :: "ntype \<Rightarrow> (ident \<rightharpoonup> nat)"
  country_by_name :: "tcell \<rightharpoonup> ident"
  node_features :: "ntype \<rightharpoonup> matrix"
  hetero :: "hetero_data option"
  data_of :: data

definition init :: "data \<Rightarrow> builder" where
  "init d =
     \<lparr>G = \<lparr>node_list = [], edge_list = []\<rparr>, id_maps = (\<lambda>t. Map.empty),
      country_by_name = Map.empty, node_features = Map.empty, hetero = None, data_of = d\<rparr>"

definition set_id :: "ntype \<Rightarrow> ident \<Rightarrow> nat \<Rightarrow> builder \<Rightarrow> builder" where
  "set_id t nid i b = b\<lparr>id_maps := (id_maps b)(t := (id_maps b t)(nid \<mapsto> i))\<rparr>"

subsection \<open>\<^verbatim>\<open>_nodes\<close>\<close>

definition supplier_node :: "(string \<Rightarrow> fl option) \<Rightarrow> supplier_row \<Rightarrow> node_data" where
  "supplier_node pf r =
     \<lparr>node_type = Supplier, label = s_name r,
      cats = [''country'' \<mapsto> s_country r, ''category'' \<mapsto> s_category r,
              ''risk_tier'' \<mapsto> s_risk_tier r],
      feats = safe pf (s_cells r) (feature_spec Supplier)\<rparr>"

definition component_node :: "(string \<Rightarrow> fl option) \<Rightarrow> component_row \<Rightarrow> node_data" where
  "component_node pf r =
     \<lparr>node_type = Component, label = c_part_number r,
      cats = [''category'' \<mapsto> c_category r, ''criticality'' \<mapsto> c_criticality r],
      feats = (safe pf (c_cells r)
                 [''unit_cost_usd'', ''annual_volume'', ''lead_time_weeks'',
                  ''inventory_days'', ''weight_kg'', ''is_custom''])
              (''criticality_encoded'' \<mapsto>
                 Fin (of_int (criticality_encoded (py_str (c_criticality r)))))\<rparr>"

definition country_node :: "(string \<Rightarrow> fl option) \<Rightarrow> country_row \<Rightarrow> node_data" where
  "country_node pf r =
     \<lparr>node_type = Country, label = n_name r, cats = Map.empty,
      feats = safe pf (n_cells r) (feature_spec Country)\<rparr>"

definition contract_node :: "(string \<Rightarrow> fl option) \<Rightarrow> contract_row \<Rightarrow> node_data" where
  "contract_node pf r =
     \<lparr>node_type = Contract, label = k_contract_id r,
      cats = [''status'' \<mapsto> k_status r, ''payment_terms'' \<mapsto> k_payment_terms r],
      feats = safe pf (k_cells r) (feature_spec Contract)\<rparr>"

definition route_node :: "(string \<Rightarrow> fl option) \<Rightarrow> route_row \<Rightarrow> node_data" where
  "route_node pf r =
     \<lparr>node_type = Route,
      label = Text (py_str (r_origin_country r) @ '' -> '' @ py_str (r_destination_country r)),
      cats = [''transport_mode'' \<mapsto> r_transport_mode r],
      feats = safe pf (r_cells r) (feature_spec Route)\<rparr>"

text \<open>
  One pass of \<^verbatim>\<open>for i, (_, row) in enumerate(table.iterrows())\<close>: record the index of
  the row under its identifier, then add (or update) the node.
\<close>

definition put_node :: "ntype \<Rightarrow> ident \<Rightarrow> node_data \<Rightarrow> nat \<Rightarrow> builder \<Rightarrow> builder" where
  "put_node t nid nd i b = (set_id t nid i b)\<lparr>G := add_node nid nd (G b)\<rparr>"

definition supplier_step :: "(string \<Rightarrow> fl option) \<Rightarrow> nat \<times> supplier_row \<Rightarrow> builder \<Rightarrow> builder" where
  "supplier_step pf = (\<lambda>(i, r). put_node Supplier (s_supplier_id r) (supplier_node pf r) i)"

definition component_step :: "(string \<Rightarrow> fl option) \<Rightarrow> nat \<times> component_row \<Rightarrow> builder \<Rightarrow> builder" where
  "component_step pf = (\<lambda>(i, r). put_node Component (c_component_id r) (component_node pf r) i)"

definition country_step :: "(string \<Rightarrow> fl option) \<Rightarrow> nat \<times> country_row \<Rightarrow> builder \<Rightarrow> builder" where
  "country_step pf = (\<lambda>(i, r) b.
     put_node Country (n_country_id r) (country_node pf r) i
       (b\<lparr>country_by_name := (country_by_name b)(n_name r \<mapsto> n_country_id r)\<rparr>))"

definition contract_step :: "(string \<Rightarrow> fl option) \<Rightarrow> nat \<times> contract_row \<Rightarrow> builder \<Rightarrow> builder" where
  "contract_step pf = (\<lambda>(i, r). put_node Contract (k_contract_id r) (contract_node pf r) i)"

definition route_step :: "(string \<Rightarrow> fl option) \<Rightarrow> nat \<times> route_row \<Rightarrow> builder \<Rightarrow> builder" where
  "route_step pf = (\<lambda>(i, r). put_node Route (r_route_id r) (route_node pf r) i)"

definition nodes :: "(string \<Rightarrow> fl option) \<Rightarrow> builder \<Rightarrow> builder" where
  "nodes pf b0 =
     (let d = data_of b0;
          b1 = fold (supplier_step pf) (enumerate 0 (suppliers d)) b0;
          b2 = fold (component_step pf) (enumerate 0 (components d)) b1;
          b3 = fold (country_step pf) (enumerate 0 (countries d))
                 (b2\<lparr>country_by_name := Map.empty\<rparr>);
          b4 = fold (contract_step pf) (enumerate 0 (contracts d)) b3
      in fold (route_step pf) (enumerate 0 (routes d)) b4)"

subsection \<open>\<^verbatim>\<open>_edges\<close>\<close>

text \<open>
  A loop whose body may raise stops at the first exception.
\<close>

fun try_fold :: "('a \<Rightarrow> 's \<Rightarrow> error + 's) \<Rightarrow> 'a list \<Rightarrow> 's \<Rightarrow> error + 's" where
  "try_fold f [] s = Inr s"
| "try_fold f (a # as) s = (case f a s of Inl e \<Rightarrow> Inl e | Inr s' \<Rightarrow> try_fold f as s')"

text \<open>
  \<^verbatim>\<open>
  for _, row in self._data["sourcing_links"].iterrows():
      s, c = row["supplier_id"], row["component_id"]
      if s in self.G and c in self.G:
          self.G.add_edge(s, c, relation="supplies",
              is_primary=int(row["is_primary"]),
              unit_price_usd=float(row["unit_price_usd"]))
  \<close>
  The two conversions are evaluated, in this order, only inside the guard.
\<close>

definition supplies_step ::
  "(string \<Rightarrow> fl option) \<Rightarrow> (string \<Rightarrow> int option) \<Rightarrow> link_row \<Rightarrow> graph \<Rightarrow> error + graph" where
  "supplies_step pf pint r g =
     (let s = l_supplier_id r; c = l_component_id r in
      if has_node g s \<and> has_node g c then
        (case py_int pint (l_is_primary r) of
           Inl e \<Rightarrow> Inl e
         | Inr ip \<Rightarrow>
             (case py_float pf (l_unit_price_usd r) of
                Inl e \<Rightarrow> Inl e
              | Inr up \<Rightarrow>
                  Inr (add_edge \<lparr>e_src = s, e_dst = c, e_relation = Supplies,
                                 e_is_primary = Some ip, e_unit_price_usd = Some up\<rparr> g)))
      else Inr g)"

text \<open>
  \<^verbatim>\<open>if cnid and cnid in self.G: self.G.add_edge(src, cnid, relation=rel)\<close> for an
  identifier looked up by country name: \<^verbatim>\<open>None\<close> and the empty string are falsy, NaN
  is not.
\<close>

definition add_named :: "ident \<Rightarrow> ident option \<Rightarrow> relation \<Rightarrow> graph \<Rightarrow> graph" where
  "add_named u cn rel g =
     (case cn of
        None \<Rightarrow> g
      | Some cnid \<Rightarrow> if truthy cnid \<and> has_node g cnid then add_edge (mk_edge u cnid rel) g else g)"

definition located_in_step :: "(tcell \<rightharpoonup> ident) \<Rightarrow> supplier_row \<Rightarrow> graph \<Rightarrow> graph" where
  "located_in_step by_name r g =
     (let sid = s_supplier_id r; cnid = by_name (s_country r) in
      if has_node g sid then add_named sid cnid Located_in g else g)"

definition contracts_step :: "contract_row \<Rightarrow> graph \<Rightarrow> graph" where
  "contracts_step r g =
     (let cid = k_contract_id r; sid = k_supplier_id r; cmp = k_primary_component_id r;
          g1 = (if has_node g cid \<and> has_node g cmp then add_edge (mk_edge cid cmp Covers) g else g)
      in if has_node g1 cid \<and> has_node g1 sid then add_edge (mk_edge cid sid Signed_with) g1 else g1)"

definition routes_step :: "(tcell \<rightharpoonup> ident) \<Rightarrow> route_row \<Rightarrow> graph \<Rightarrow> graph" where
  "routes_step by_name r g =
     (let rid = r_route_id r;
          ocid = by_name (r_origin_country r);
          dcid = by_name (r_destination_country r);
          cmp = r_component_id r
      in if has_node g rid then
           (let g1 = add_named rid ocid Originates_in g;
                g2 = add_named rid dcid Delivers_to g1
            in if has_node g2 cmp then add_edge (mk_edge rid cmp Carries) g2 else g2)
         else g)"

text \<open>
  \<^verbatim>\<open>comp_to_sups.setdefault(c, []).append(s)\<close> on a dictionary kept in insertion order.
\<close>

definition setdefault_append :: "'k \<Rightarrow> 'v \<Rightarrow> ('k \<times> 'v list) list \<Rightarrow> ('k \<times> 'v list) list" where
  "setdefault_append k v m =
     (if k \<in> set (map fst m)
      then map (\<lambda>(k', vs). if k' = k then (k', vs @ [v]) else (k', vs)) m
      else m @ [(k, [v])])"

definition comp_to_sups :: "link_row list \<Rightarrow> (ident \<times> ident list) list" where
  "comp_to_sups links =
     fold (\<lambda>r m. setdefault_append (l_component_id r) (l_supplier_id r) m) links []"

text \<open>
  \<^verbatim>\<open>tuple(sorted([a, b]))\<close>. The sort of a two-element list evaluates \<^verbatim>\<open>b < a\<close>: two
  strings compare lexicographically, NaN is below nothing, and a string against a float
  raises \<^verbatim>\<open>TypeError\<close>.
\<close>

definition comparable :: "tcell \<Rightarrow> tcell \<Rightarrow> bool" where
  "comparable a b = ((a = Blank) = (b = Blank))"

definition py_less :: "tcell \<Rightarrow> tcell \<Rightarrow> bool" where
  "py_less a b = (case (a, b) of (Text s, Text t) \<Rightarrow> s < t | _ \<Rightarrow> False)"

definition sorted_pair :: "ident \<Rightarrow> ident \<Rightarrow> error + ident \<times> ident" where
  "sorted_pair a b =
     (if comparable a b then Inr (if py_less b a then (b, a) else (a, b)) else Inl TypeError)"

text \<open>
  \<^verbatim>\<open>for i in range(len(sups)): for j in range(i+1, len(sups)): ... sups[i], sups[j]\<close>:
  every element with every later one, in that order.
\<close>

fun pairs_of :: "ident list \<Rightarrow> (ident \<times> ident) list" where
  "pairs_of [] = []"
| "pairs_of (s # sups) = map (Pair s) sups @ pairs_of sups"

text \<open>
  A Python \<^verbatim>\<open>set\<close> as the list of its distinct elements. Python enumerates a set in
  an order of its own; the list keeps the order of first insertion, and only facts
  independent of that order are stated.
\<close>

definition set_add :: "'a \<Rightarrow> 'a list \<Rightarrow> 'a list" where
  "set_add a as = (if a \<in> set as then as else as @ [a])"

text \<open>
  \<^verbatim>\<open>
  co = set()
  for sups in comp_to_sups.values():
      for i in range(len(sups)):
          for j in range(i+1, len(sups)):
              co.add(tuple(sorted([sups[i], sups[j]])))
  \<close>
  The pairs are sorted before any test of membership in the graph, so the first pair
  that does not compare ends the build.
\<close>

definition co_add :: "ident \<times> ident \<Rightarrow> (ident \<times> ident) list \<Rightarrow> error + (ident \<times> ident) list" where
  "co_add = (\<lambda>(a, b) co.
     case sorted_pair a b of Inl e \<Rightarrow> Inl e | Inr p \<Rightarrow> Inr (set_add p co))"

definition co_pairs :: "link_row list \<Rightarrow> error + (ident \<times> ident) list" where
  "co_pairs links =
     try_fold co_add (concat (map (\<lambda>(c, sups). pairs_of sups) (comp_to_sups links))) []"

definition co_supplier_step :: "ident \<times> ident \<Rightarrow> graph \<Rightarrow> graph" where
  "co_supplier_step = (\<lambda>(s1, s2) g.
     if has_node g s1 \<and> has_node g s2
     then add_edge (mk_edge s2 s1 Co_supplier) (add_edge (mk_edge s1 s2 Co_supplier) g)
     else g)"

definition tw_add :: "(tcell \<rightharpoonup> ident) \<Rightarrow> route_row \<Rightarrow> (ident \<times> ident) list \<Rightarrow> (ident \<times> ident) list" where
  "tw_add by_name r tw =
     (case by_name (r_origin_country r) of
        None \<Rightarrow> tw
      | Some oc2 \<Rightarrow>
          (case by_name (r_destination_country r) of
             None \<Rightarrow> tw
           | Some dc2 \<Rightarrow> if truthy oc2 \<and> truthy dc2 then set_add (oc2, dc2) tw else tw))"

definition tw_pairs :: "(tcell \<rightharpoonup> ident) \<Rightarrow> route_row list \<Rightarrow> (ident \<times> ident) list" where
  "tw_pairs by_name rs = fold (tw_add by_name) rs []"

definition trades_with_step :: "ident \<times> ident \<Rightarrow> graph \<Rightarrow> graph" where
  "trades_with_step = (\<lambda>(c1, c2) g.
     if has_node g c1 \<and> has_node g c2 then add_edge (mk_edge c1 c2 Trades_with) g else g)"

definition table_edges :: "(tcell \<rightharpoonup> ident) \<Rightarrow> data \<Rightarrow> graph \<Rightarrow> graph" where
  "table_edges by_name d g =
     fold (routes_step by_name) (routes d)
       (fold contracts_step (contracts d)
          (fold (located_in_step by_name) (suppliers d) g))"

definition derived_edges :: "(tcell \<rightharpoonup> ident) \<Rightarrow> data \<Rightarrow> graph \<Rightarrow> error + graph" where
  "derived_edges by_name d g =
     (case co_pairs (sourcing_links d) of
        Inl e \<Rightarrow> Inl e
      | Inr co \<Rightarrow>
          Inr (fold trades_with_step (tw_pairs by_name (routes d)) (fold co_supplier_step co g)))"

definition edges ::
  "(string \<Rightarrow> fl option) \<Rightarrow> (string \<Rightarrow> int option) \<Rightarrow> builder \<Rightarrow> error + builder" where
  "edges pf pint b =
     (let d = data_of b; by_name = country_by_name b in
      case try_fold (supplies_step pf pint) (sourcing_links d) (G b) of
        Inl e \<Rightarrow> Inl e
      | Inr g1 \<Rightarrow>
          (case derived_edges by_name d (table_edges by_name d g1) of
             Inl e \<Rightarrow> Inl e
           | Inr g2 \<Rightarrow> Inr (b\<lparr>G := g2\<rparr>)))"

subsection \<open>\<^verbatim>\<open>_features\<close>\<close>

text \<open>
  Float arithmetic as numpy performs it on the special values; on finite values it is
  exact here (the conversion to \<^verbatim>\<open>float32\<close> is the identity, and the sign of a zero is
  not kept).
\<close>

fun fl_sub :: "fl \<Rightarrow> fl \<Rightarrow> fl" where
  "fl_sub (Fin a) (Fin b) = Fin (a - b)"
| "fl_sub NaN _ = NaN"
| "fl_sub _ NaN = NaN"
| "fl_sub PInf PInf = NaN"
| "fl_sub NInf NInf = NaN"
| "fl_sub PInf _ = PInf"
| "fl_sub NInf _ = NInf"
| "fl_sub (Fin a) PInf = NInf"
| "fl_sub (Fin a) NInf = PInf"

fun fl_div :: "fl \<Rightarrow> fl \<Rightarrow> fl" where
  "fl_div (Fin a) (Fin b) =
     (if b = 0 then (if a = 0 then NaN else if 0 < a then PInf else NInf) else Fin (a / b))"
| "fl_div NaN _ = NaN"
| "fl_div _ NaN = NaN"
| "fl_div (Fin a) _ = Fin 0"
| "fl_div PInf (Fin b) = (if 0 \<le> b then PInf else NInf)"
| "fl_div NInf (Fin b) = (if 0 \<le> b then NInf else PInf)"
| "fl_div _ _ = NaN"

fun fl_le :: "fl \<Rightarrow> fl \<Rightarrow> bool" where
  "fl_le (Fin a) (Fin b) = (a \<le> b)"
| "fl_le NaN _ = False"
| "fl_le _ NaN = False"
| "fl_le NInf _ = True"
| "fl_le _ PInf = True"
| "fl_le _ _ = False"

text \<open>\<^verbatim>\<open>numpy.min\<close> and \<^verbatim>\<open>numpy.max\<close> propagate NaN.\<close>

definition fl_min :: "fl \<Rightarrow> fl \<Rightarrow> fl" where
  "fl_min a b = (if a = NaN \<or> b = NaN then NaN else if fl_le a b then a else b)"

definition fl_max :: "fl \<Rightarrow> fl \<Rightarrow> fl" where
  "fl_max a b = (if a = NaN \<or> b = NaN then NaN else if fl_le a b then b else a)"

text \<open>\<^verbatim>\<open>matrix.min(0)\<close>, \<^verbatim>\<open>matrix.max(0)\<close> of a matrix with at least one row.\<close>

fun amin0 :: "matrix \<Rightarrow> fl list" where
  "amin0 [] = []"
| "amin0 (r # rs) = fold (\<lambda>row acc. map2 fl_min acc row) rs r"

fun amax0 :: "matrix \<Rightarrow> fl list" where
  "amax0 [] = []"
| "amax0 (r # rs) = fold (\<lambda>row acc. map2 fl_max acc row) rs r"

text \<open>\<^verbatim>\<open>float(d.get(f, 0.0) or 0.0)\<close> on the attribute dictionary of a node.\<close>

definition node_value :: "node_data \<Rightarrow> string \<Rightarrow> fl" where
  "node_value d f =
     (case feats d f of None \<Rightarrow> Fin 0 | Some v \<Rightarrow> if v = Fin 0 then Fin 0 else v)"

text \<open>
  \<^verbatim>\<open>
  mins = matrix.min(0); maxs = matrix.max(0)
  rng  = np.where(maxs - mins == 0, 1.0, maxs - mins)
  self.node_features[ntype] = (matrix - mins) / rng
  \<close>
\<close>

definition where_rng :: "fl \<Rightarrow> fl \<Rightarrow> fl" where
  "where_rng mx mn = (if fl_sub mx mn = Fin 0 then Fin 1 else fl_sub mx mn)"

definition minmax :: "matrix \<Rightarrow> matrix" where
  "minmax M =
     (let mins = amin0 M; maxs = amax0 M; rng = map2 where_rng maxs mins
      in map (\<lambda>row. map2 fl_div (map2 fl_sub row mins) rng) M)"

definition typed_nodes :: "graph \<Rightarrow> ntype \<Rightarrow> (ident \<times> node_data) list" where
  "typed_nodes g t = filter (\<lambda>(n, d). node_type d = t) (node_list g)"

definition raw_matrix :: "graph \<Rightarrow> ntype \<Rightarrow> string list \<Rightarrow> matrix" where
  "raw_matrix g t feat_names = map (\<lambda>(n, d). map (node_value d) feat_names) (typed_nodes g t)"

definition features_step :: "ntype \<times> string list \<Rightarrow> builder \<Rightarrow> builder" where
  "features_step = (\<lambda>(t, feat_names) b.
     if typed_nodes (G b) t = [] then b
     else b\<lparr>node_features := (node_features b)(t \<mapsto> minmax (raw_matrix (G b) t feat_names))\<rparr>)"

definition features :: "builder \<Rightarrow> builder" where
  "features b = fold features_step NODE_FEATURE_SPECS b"

subsection \<open>\<^verbatim>\<open>_to_pyg\<close>\<close>

definition edge_defs :: "(relation \<times> ntype \<times> ntype) list" where
  "edge_defs =
    [(Supplies, Supplier, Component),
     (Located_in, Supplier, Country),
     (Covers, Contract, Component),
     (Signed_with, Contract, Supplier),
     (Originates_in, Route, Country),
     (Delivers_to, Route, Country),
     (Carries, Route, Component),
     (Co_supplier, Supplier, Supplier),
     (Trades_with, Country, Country)]"

text \<open>
  \<^verbatim>\<open>
  edges = [(sm[u], dm[v]) for u, v, d in self.G.edges(data=True)
           if d.get("relation") == rel and u in sm and v in dm]
  \<close>
\<close>

definition resolves :: "builder \<Rightarrow> relation \<Rightarrow> ntype \<Rightarrow> ntype \<Rightarrow> edge \<Rightarrow> bool" where
  "resolves b rel src_t dst_t e =
     (e_relation e = rel \<and> id_maps b src_t (e_src e) \<noteq> None \<and> id_maps b dst_t (e_dst e) \<noteq> None)"

definition resolved_edges :: "builder \<Rightarrow> relation \<Rightarrow> ntype \<Rightarrow> ntype \<Rightarrow> (nat \<times> nat) list" where
  "resolved_edges b rel src_t dst_t =
     map (\<lambda>e. (the (id_maps b src_t (e_src e)), the (id_maps b dst_t (e_dst e))))
         (filter (resolves b rel src_t dst_t) (edge_list (G b)))"

definition pyg_step :: "builder \<Rightarrow> relation \<times> ntype \<times> ntype \<Rightarrow> hetero_data \<Rightarrow> hetero_data" where
  "pyg_step b = (\<lambda>(rel, src_t, dst_t) h.
     (let es = resolved_edges b rel src_t dst_t in
      if es \<noteq> []
      then h\<lparr>edge_index := (edge_index h)((src_t, rel, dst_t) \<mapsto> (map fst es, map snd es))\<rparr>
      else h))"

text \<open>
  \<open>have_pyg\<close> tells whether \<^verbatim>\<open>torch_geometric\<close> can be imported; without it the export
  is skipped and \<^verbatim>\<open>None\<close> is returned.
\<close>

definition to_pyg :: "bool \<Rightarrow> builder \<Rightarrow> hetero_data option" where
  "to_pyg have_pyg b =
     (if \<not> have_pyg then None
      else Some (fold (pyg_step b) edge_defs \<lparr>x_of = node_features b, edge_index = Map.empty\<rparr>))"

subsection \<open>\<^verbatim>\<open>_load\<close> and \<^verbatim>\<open>build\<close>\<close>

text \<open>
  A file of the data directory: it does not exist; or it exists and \<^verbatim>\<open>pd.read_csv\<close>
  raises on it (an empty or malformed file, a directory); or it exists and is read as a
  table. What pandas raises is kept as one error.
\<close>

datatype 'a csv_file = Absent | Unreadable | Table (table_of: 'a)

record file_system =
  f_suppliers :: "supplier_row list csv_file"
  f_components :: "component_row list csv_file"
  f_countries :: "country_row list csv_file"
  f_contracts :: "contract_row list csv_file"
  f_routes :: "route_row list csv_file"
  f_sourcing_links :: "link_row list csv_file"

definition TABLES :: "string list" where
  "TABLES = [''suppliers'', ''components'', ''countries'', ''contracts'', ''routes'',
             ''sourcing_links'']"

definition file_exists :: "file_system \<Rightarrow> string \<Rightarrow> bool" where
  "file_exists fs t =
     (if t = ''suppliers'' then f_suppliers fs \<noteq> Absent
      else if t = ''components'' then f_components fs \<noteq> Absent
      else if t = ''countries'' then f_countries fs \<noteq> Absent
      else if t = ''contracts'' then f_contracts fs \<noteq> Absent
      else if t = ''routes'' then f_routes fs \<noteq> Absent
      else if t = ''sourcing_links'' then f_sourcing_links fs \<noteq> Absent
      else False)"

definition file_reads :: "file_system \<Rightarrow> string \<Rightarrow> bool" where
  "file_reads fs t =
     (if t = ''suppliers'' then f_suppliers fs \<noteq> Absent \<and> f_suppliers fs \<noteq> Unreadable
      else if t = ''components'' then f_components fs \<noteq> Absent \<and> f_components fs \<noteq> Unreadable
      else if t = ''countries'' then f_countries fs \<noteq> Absent \<and> f_countries fs \<noteq> Unreadable
      else if t = ''contracts'' then f_contracts fs \<noteq> Absent \<and> f_contracts fs \<noteq> Unreadable
      else if t = ''routes'' then f_routes fs \<noteq> Absent \<and> f_routes fs \<noteq> Unreadable
      else if t = ''sourcing_links''
        then f_sourcing_links fs \<noteq> Absent \<and> f_sourcing_links fs \<noteq> Unreadable
      else False)"

text \<open>
  \<open>path_of name\<close> is the text of the path \<^verbatim>\<open>self.data_dir / name\<close>, as pathlib joins
  and prints it.
\<close>

definition missing :: "(string \<Rightarrow> string) \<Rightarrow> string \<Rightarrow> error" where
  "missing path_of t =
     FileNotFoundError
       (''Missing '' @ path_of (t @ ''.csv'') @ ''. Run: python -m src.data.generator'')"

text \<open>
  \<^verbatim>\<open>
  for t in ["suppliers","components","countries","contracts","routes","sourcing_links"]:
      p = self.data_dir / f"{t}.csv"
      if not p.exists():
          raise FileNotFoundError(f"Missing {p}. Run: python -m src.data.generator")
      self._data[t] = pd.read_csv(p)
  \<close>
  The loop is unrolled, since each table has its own row type.
\<close>

definition read_table :: "(string \<Rightarrow> string) \<Rightarrow> string \<Rightarrow> 'a csv_file \<Rightarrow> error + 'a" where
  "read_table path_of t f =
     (case f of Absent \<Rightarrow> Inl (missing path_of t) | Unreadable \<Rightarrow> Inl CsvError | Table a \<Rightarrow> Inr a)"

definition load :: "(string \<Rightarrow> string) \<Rightarrow> file_system \<Rightarrow> error + data" where
  "load path_of fs =
     (case read_table path_of ''suppliers'' (f_suppliers fs) of Inl e \<Rightarrow> Inl e | Inr t1 \<Rightarrow>
      case read_table path_of ''components'' (f_components fs) of Inl e \<Rightarrow> Inl e | Inr t2 \<Rightarrow>
      case read_table path_of ''countries'' (f_countries fs) of Inl e \<Rightarrow> Inl e | Inr t3 \<Rightarrow>
      case read_table path_of ''contracts'' (f_contracts fs) of Inl e \<Rightarrow> Inl e | Inr t4 \<Rightarrow>
      case read_table path_of ''routes'' (f_routes fs) of Inl e \<Rightarrow> Inl e | Inr t5 \<Rightarrow>
      case read_table path_of ''sourcing_links'' (f_sourcing_links fs) of Inl e \<Rightarrow> Inl e | Inr t6 \<Rightarrow>
      Inr \<lparr>suppliers = t1, components = t2, countries = t3, contracts = t4, routes = t5,
           sourcing_links = t6\<rparr>)"

text \<open>
  \<^verbatim>\<open>build\<close>: load, nodes, edges, features, export; an exception of a phase ends the
  build. Writing the files (\<^verbatim>\<open>_save\<close>) changes nothing in the builder and is left out.
\<close>

definition build ::
  "(string \<Rightarrow> fl option) \<Rightarrow> (string \<Rightarrow> int option) \<Rightarrow> bool \<Rightarrow> (string \<Rightarrow> string)
     \<Rightarrow> file_system \<Rightarrow> error + builder" where
  "build pf pint have_pyg path_of fs =
     (case load path_of fs of
        Inl e \<Rightarrow> Inl e
      | Inr d \<Rightarrow>
          (case edges pf pint (nodes pf (init d)) of
             Inl e \<Rightarrow> Inl e
           | Inr b \<Rightarrow> (let b' = features b in Inr (b'\<lparr>hetero := to_pyg have_pyg b'\<rparr>))))"

section \<open>A small data directory\<close>

text \<open>
  Three suppliers, two components, two countries, one contract, one route and four
  sourcing links, the last of which names a supplier that does not exist.
\<close>

definition ex_pf :: "string \<Rightarrow> fl option" where
  "ex_pf s = (if s = ''1.5'' then Some (Fin (3 / 2)) else None)"

definition ex_pint :: "string \<Rightarrow> int option" where
  "ex_pint s = (if s = ''1'' then Some 1 else None)"

definition ex_suppliers :: "supplier_row list" where
  "ex_suppliers =
    [\<lparr>s_supplier_id = Text ''S1'', s_name = Text ''Acme'', s_country = Text ''X'', s_category = Text ''c'',
      s_risk_tier = Text ''t'', s_cells = [''headcount'' \<mapsto> CInt 5]\<rparr>,
     \<lparr>s_supplier_id = Text ''S2'', s_name = Text ''Bolt'', s_country = Text ''Y'', s_category = Text ''c'',
      s_risk_tier = Text ''t'', s_cells = [''headcount'' \<mapsto> CInt 7]\<rparr>,
     \<lparr>s_supplier_id = Text ''S3'', s_name = Text ''Cog'', s_country = Text ''Z'', s_category = Text ''c'',
      s_risk_tier = Text ''t'', s_cells = Map.empty\<rparr>]"

definition ex_components :: "component_row list" where
  "ex_components =
    [\<lparr>c_component_id = Text ''C1'', c_part_number = Text ''p1'', c_category = Text ''c'',
      c_criticality = Text ''High'', c_cells = Map.empty\<rparr>,
     \<lparr>c_component_id = Text ''C2'', c_part_number = Text ''p2'', c_category = Text ''c'',
      c_criticality = Text ''Low'', c_cells = Map.empty\<rparr>]"

definition ex_countries :: "country_row list" where
  "ex_countries =
    [\<lparr>n_country_id = Text ''N1'', n_name = Text ''X'', n_cells = Map.empty\<rparr>,
     \<lparr>n_country_id = Text ''N2'', n_name = Text ''Y'', n_cells = Map.empty\<rparr>]"

definition ex_contracts :: "contract_row list" where
  "ex_contracts =
    [\<lparr>k_contract_id = Text ''K1'', k_supplier_id = Text ''S1'', k_primary_component_id = Text ''C1'',
      k_status = Text ''s'', k_payment_terms = Text ''p'', k_cells = Map.empty\<rparr>]"

definition ex_routes :: "route_row list" where
  "ex_routes =
    [\<lparr>r_route_id = Text ''R1'', r_origin_country = Text ''X'', r_destination_country = Text ''Y'',
      r_component_id = Text ''C1'', r_transport_mode = Text ''sea'', r_cells = Map.empty\<rparr>]"

definition ex_links :: "link_row list" where
  "ex_links =
    [\<lparr>l_supplier_id = Text ''S1'', l_component_id = Text ''C1'', l_is_primary = CBool True,
      l_unit_price_usd = CFloat (Fin 2)\<rparr>,
     \<lparr>l_supplier_id = Text ''S2'', l_component_id = Text ''C1'', l_is_primary = CBool False,
      l_unit_price_usd = CFloat (Fin 3)\<rparr>,
     \<lparr>l_supplier_id = Text ''S3'', l_component_id = Text ''C2'', l_is_primary = CInt 1,
      l_unit_price_usd = CFloat (Fin 3)\<rparr>,
     \<lparr>l_supplier_id = Text ''S9'', l_component_id = Text ''C2'', l_is_primary = CFloat NaN,
      l_unit_price_usd = CFloat (Fin 3)\<rparr>]"

definition ex_data :: data where
  "ex_data =
     \<lparr>suppliers = ex_suppliers, components = ex_components, countries = ex_countries,
      contracts = ex_contracts, routes = ex_routes, sourcing_links = ex_links\<rparr>"

definition ex_fs :: file_system where
  "ex_fs =
     \<lparr>f_suppliers = Table ex_suppliers, f_components = Table ex_components,
      f_countries = Table ex_countries, f_contracts = Table ex_contracts,
      f_routes = Table ex_routes, f_sourcing_links = Table ex_links\<rparr>"

definition ex_path :: "string \<Rightarrow> string" where
  "ex_path name = ''data/'' @ name"

definition ex_build :: "error + builder" where
  "ex_build = build ex_pf ex_pint True ex_path ex_fs"

text \<open>
  The same directory with two sourcing links of component C1, the second with an empty
  \<^verbatim>\<open>supplier_id\<close> cell.
\<close>

definition ex_blank_links :: "link_row list" where
  "ex_blank_links =
    [\<lparr>l_supplier_id = Text ''S1'', l_component_id = Text ''C1'', l_is_primary = CBool True,
      l_unit_price_usd = CFloat (Fin 2)\<rparr>,
     \<lparr>l_supplier_id = Blank, l_component_id = Text ''C1'', l_is_primary = CBool False,
      l_unit_price_usd = CFloat (Fin 3)\<rparr>]"

definition ex_blank_fs :: file_system where
  "ex_blank_fs = ex_fs\<lparr>f_sourcing_links := Table ex_blank_links\<rparr>"

text \<open>The same directory with one sourcing link written twice.\<close>

definition ex_dup_links :: "link_row list" where
  "ex_dup_links =
    [\<lparr>l_supplier_id = Text ''S1'', l_component_id = Text ''C1'', l_is_primary = CBool True,
      l_unit_price_usd = CFloat (Fin 2)\<rparr>,
     \<lparr>l_supplier_id = Text ''S1'', l_component_id = Text ''C1'', l_is_primary = CBool True,
      l_unit_price_usd = CFloat (Fin 2)\<rparr>]"

definition ex_dup_fs :: file_system where
  "ex_dup_fs = ex_fs\<lparr>f_sourcing_links := Table ex_dup_links\<rparr>"

definition ex_dup_build :: "error + builder" where
  "ex_dup_build = build ex_pf ex_pint True ex_path ex_dup_fs"

section \<open>Notions used in the statements\<close>

text \<open>The identifiers of a table, in row order, and those of the five entity tables.\<close>

definition ids_of :: "ntype \<Rightarrow> data \<Rightarrow> ident list" where
  "ids_of t d =
     (case t of
        Supplier \<Rightarrow> map s_supplier_id (suppliers d)
      | Component \<Rightarrow> map c_component_id (components d)
      | Country \<Rightarrow> map n_country_id (countries d)
      | Contract \<Rightarrow> map k_contract_id (contracts d)
      | Route \<Rightarrow> map r_route_id (routes d))"

definition all_ids :: "data \<Rightarrow> ident list" where
  "all_ids d =
     ids_of Supplier d @ ids_of Component d @ ids_of Country d @ ids_of Contract d
       @ ids_of Route d"

text \<open>The common shape of the five loops of \<^verbatim>\<open>_nodes\<close>.\<close>

definition node_step ::
  "ntype \<Rightarrow> ('r \<Rightarrow> ident) \<Rightarrow> ('r \<Rightarrow> node_data) \<Rightarrow> ('r \<Rightarrow> builder \<Rightarrow> builder)
     \<Rightarrow> nat \<times> 'r \<Rightarrow> builder \<Rightarrow> builder" where
  "node_step t key mk upd = (\<lambda>(i, r) b. put_node t (key r) (mk r) i (upd r b))"

text \<open>The type a node of the graph carries, and the number of edges of a kind.\<close>

definition type_of :: "graph \<Rightarrow> ident \<Rightarrow> ntype option" where
  "type_of g n = map_option node_type (map_of (node_list g) n)"

definition edge_count :: "graph \<Rightarrow> ident \<Rightarrow> ident \<Rightarrow> relation \<Rightarrow> nat" where
  "edge_count g u v rel =
     length (filter (\<lambda>e. e_src e = u \<and> e_dst e = v \<and> e_relation e = rel) (edge_list g))"

text \<open>
  The edges each loop of \<^verbatim>\<open>_edges\<close> adds for one row (or one pair), as a function of
  the nodes present: the loops add edges and never nodes.
\<close>

definition supplies_out ::
  "(string \<Rightarrow> fl option) \<Rightarrow> (string \<Rightarrow> int option) \<Rightarrow> graph \<Rightarrow> link_row \<Rightarrow> edge list" where
  "supplies_out pf pint g r =
     (if has_node g (l_supplier_id r) \<and> has_node g (l_component_id r)
      then [\<lparr>e_src = l_supplier_id r, e_dst = l_component_id r, e_relation = Supplies,
             e_is_primary = Some (projr (py_int pint (l_is_primary r))),
             e_unit_price_usd = Some (projr (py_float pf (l_unit_price_usd r)))\<rparr>]
      else [])"

definition named_out :: "graph \<Rightarrow> ident \<Rightarrow> ident option \<Rightarrow> relation \<Rightarrow> edge list" where
  "named_out g u cn rel =
     (case cn of
        None \<Rightarrow> []
      | Some cnid \<Rightarrow> if truthy cnid \<and> has_node g cnid then [mk_edge u cnid rel] else [])"

definition located_in_out :: "(tcell \<rightharpoonup> ident) \<Rightarrow> graph \<Rightarrow> supplier_row \<Rightarrow> edge list" where
  "located_in_out by_name g r =
     (if has_node g (s_supplier_id r)
      then named_out g (s_supplier_id r) (by_name (s_country r)) Located_in else [])"

definition contracts_out :: "graph \<Rightarrow> contract_row \<Rightarrow> edge list" where
  "contracts_out g r =
     (if has_node g (k_contract_id r) \<and> has_node g (k_primary_component_id r)
      then [mk_edge (k_contract_id r) (k_primary_component_id r) Covers] else [])
     @ (if has_node g (k_contract_id r) \<and> has_node g (k_supplier_id r)
        then [mk_edge (k_contract_id r) (k_supplier_id r) Signed_with] else [])"

definition routes_out :: "(tcell \<rightharpoonup> ident) \<Rightarrow> graph \<Rightarrow> route_row \<Rightarrow> edge list" where
  "routes_out by_name g r =
     (if has_node g (r_route_id r)
      then named_out g (r_route_id r) (by_name (r_origin_country r)) Originates_in
           @ named_out g (r_route_id r) (by_name (r_destination_country r)) Delivers_to
           @ (if has_node g (r_component_id r)
              then [mk_edge (r_route_id r) (r_component_id r) Carries] else [])
      else [])"

definition co_out :: "graph \<Rightarrow> ident \<times> ident \<Rightarrow> edge list" where
  "co_out g = (\<lambda>(s1, s2).
     if has_node g s1 \<and> has_node g s2
     then [mk_edge s1 s2 Co_supplier, mk_edge s2 s1 Co_supplier] else [])"

definition tw_out :: "graph \<Rightarrow> ident \<times> ident \<Rightarrow> edge list" where
  "tw_out g = (\<lambda>(c1, c2).
     if has_node g c1 \<and> has_node g c2 then [mk_edge c1 c2 Trades_with] else [])"

definition edges_out ::
  "(string \<Rightarrow> fl option) \<Rightarrow> (string \<Rightarrow> int option) \<Rightarrow> builder \<Rightarrow> edge list" where
  "edges_out pf pint b =
     (let d = data_of b; by_name = country_by_name b; g = G b in
      concat (map (supplies_out pf pint g) (sourcing_links d))
      @ concat (map (located_in_out by_name g) (suppliers d))
      @ concat (map (contracts_out g) (contracts d))
      @ concat (map (routes_out by_name g) (routes d))
      @ concat (map (co_out g) (projr (co_pairs (sourcing_links d))))
      @ concat (map (tw_out g) (tw_pairs by_name (routes d))))"

text \<open>A sourcing link whose two endpoints exist and whose attributes convert.\<close>

definition link_converts ::
  "(string \<Rightarrow> fl option) \<Rightarrow> (string \<Rightarrow> int option) \<Rightarrow> link_row \<Rightarrow> bool" where
  "link_converts pf pint r =
     (\<not> isl (py_int pint (l_is_primary r)) \<and> \<not> isl (py_float pf (l_unit_price_usd r)))"

text \<open>
  Two suppliers named by sourcing links of one component, and a supplier paired with
  one component by (at least) two sourcing links.
\<close>

definition share_component :: "link_row list \<Rightarrow> ident \<Rightarrow> ident \<Rightarrow> bool" where
  "share_component links a b =
     (\<exists>r1 \<in> set links. \<exists>r2 \<in> set links.
        l_supplier_id r1 = a \<and> l_supplier_id r2 = b \<and> l_component_id r1 = l_component_id r2)"

definition duplicate_link :: "link_row list \<Rightarrow> ident \<Rightarrow> bool" where
  "duplicate_link links s =
     (\<exists>r \<in> set links. l_supplier_id r = s \<and>
        2 \<le> length (filter (\<lambda>r'. l_supplier_id r' = s \<and> l_component_id r' = l_component_id r)
                      links))"

text \<open>The suppliers of the sourcing links of a component, in row order.\<close>

definition sups_under :: "link_row list \<Rightarrow> ident \<Rightarrow> ident list" where
  "sups_under links c = map l_supplier_id (filter (\<lambda>r. l_component_id r = c) links)"

text \<open>
  The co-supplier derivation seen from outside: the pairs in loop order, a pair put in
  order where the comparison does not raise, and the tables on which no comparison
  raises.
\<close>

definition raw_pairs :: "link_row list \<Rightarrow> (ident \<times> ident) list" where
  "raw_pairs links = concat (map (\<lambda>(c, sups). pairs_of sups) (comp_to_sups links))"

definition sort2 :: "ident \<times> ident \<Rightarrow> ident \<times> ident" where
  "sort2 = (\<lambda>(a, b). if py_less b a then (b, a) else (a, b))"

definition sortable :: "link_row list \<Rightarrow> bool" where
  "sortable links =
     (\<forall>r1 \<in> set links. \<forall>r2 \<in> set links.
        l_component_id r1 = l_component_id r2
          \<longrightarrow> comparable (l_supplier_id r1) (l_supplier_id r2))"

text \<open>
  The country a name resolves to (the last row of the countries table with that name
  wins), and the ordered pairs of country identifiers that some route resolves to.
\<close>

definition name_index :: "country_row list \<Rightarrow> (tcell \<rightharpoonup> ident)" where
  "name_index cs = map_of (rev (map (\<lambda>r. (n_name r, n_country_id r)) cs))"

definition observed :: "(tcell \<rightharpoonup> ident) \<Rightarrow> route_row list \<Rightarrow> ident \<Rightarrow> ident \<Rightarrow> bool" where
  "observed by_name rs c1 c2 =
     (\<exists>r \<in> set rs. by_name (r_origin_country r) = Some c1
        \<and> by_name (r_destination_country r) = Some c2 \<and> truthy c1 \<and> truthy c2)"

section \<open>Coercion facts\<close>

lemma safe_fold_lookup:
  "fold (\<lambda>k out. out(k \<mapsto> f k)) keys m k =
     (if k \<in> set keys then Some (f k) else m k)"
  by (induction keys arbitrary: m) auto

lemma safe_lookup:
  "safe pf r keys k = (if k \<in> set keys then Some (safe_value pf r k) else None)"
  by (simp add: safe_def safe_fold_lookup)

lemma dom_safe: "dom (safe pf r keys) = set keys"
  by (auto simp: safe_lookup dom_def)

section \<open>Tolerant coercion\<close>

text \<open>
  Claim C9. \<^verbatim>\<open>_safe\<close> returns a float for every declared feature name and for nothing
  else, whatever the row holds: a key missing from the row gives 0.0, a NaN gives 0.0,
  a value on which \<^verbatim>\<open>float\<close> raises gives 0.0 (the exception is caught), and any other
  value gives its float conversion.
\<close>

theorem safe_tolerant:
  "dom (safe pf r keys) = set keys \<and>
   (\<forall>k \<in> set keys.
      (r k = None \<longrightarrow> safe pf r keys k = Some (Fin 0)) \<and>
      (r k = Some (CFloat NaN) \<longrightarrow> safe pf r keys k = Some (Fin 0)) \<and>
      (\<forall>c e. r k = Some c \<and> py_float pf c = Inl e \<longrightarrow> safe pf r keys k = Some (Fin 0)) \<and>
      (\<forall>c v. r k = Some c \<and> c \<noteq> CFloat NaN \<and> py_float pf c = Inr v
          \<longrightarrow> safe pf r keys k = Some v))"
  by (auto simp: dom_safe safe_lookup safe_value_def safe_try_def row_get_def eq_self_def)

theorem safe_tolerant_witness:
  "safe ex_pf [''a'' \<mapsto> CStr ''abc'', ''b'' \<mapsto> CFloat NaN, ''c'' \<mapsto> CStr ''1.5'']
        [''a'', ''b'', ''c'', ''d'']
     = [''a'' \<mapsto> Fin 0, ''b'' \<mapsto> Fin 0, ''c'' \<mapsto> Fin (3 / 2), ''d'' \<mapsto> Fin 0]"
proof (rule ext)
  fix k
  let ?r = "[''a'' \<mapsto> CStr ''abc'', ''b'' \<mapsto> CFloat NaN, ''c'' \<mapsto> CStr ''1.5'']"
  let ?keys = "[''a'', ''b'', ''c'', ''d'']"
  note t = safe_tolerant [of ex_pf ?r ?keys]
  show "safe ex_pf ?r ?keys k
          = [''a'' \<mapsto> Fin 0, ''b'' \<mapsto> Fin 0, ''c'' \<mapsto> Fin (3 / 2), ''d'' \<mapsto> Fin 0] k"
  proof (cases "k \<in> set ?keys")
    case True
    then show ?thesis
      using t by (auto simp: ex_pf_def)
  next
    case False
    then have "k \<notin> dom (safe ex_pf ?r ?keys)"
      using t by blast
    then show ?thesis
      using False by (auto simp: dom_def)
  qed
qed

section \<open>Facts about the node phase\<close>

lemma keys_merge_map:
  "map fst (map (\<lambda>(k, old). if k = n then (k, f old) else (k, old)) xs) = map fst xs"
  by (induction xs) auto

lemma keys_add_node:
  "map fst (node_list (add_node n nd g)) =
     (if has_node g n then map fst (node_list g) else map fst (node_list g) @ [n])"
  by (simp add: add_node_def keys_merge_map del: map_map)

lemma has_node_add_node: "has_node (add_node n nd g) m = (m = n \<or> has_node g m)"
  unfolding has_node_def [of "add_node n nd g"] keys_add_node
  by (auto simp: has_node_def)

lemma edge_list_add_node: "edge_list (add_node n nd g) = edge_list g"
  by (simp add: add_node_def)

lemma node_list_add_node_new:
  "\<not> has_node g n \<Longrightarrow> node_list (add_node n nd g) = node_list g @ [(n, nd)]"
  by (simp add: add_node_def)

lemma distinct_add_node:
  "distinct (map fst (node_list g)) \<Longrightarrow> distinct (map fst (node_list (add_node n nd g)))"
  by (simp add: keys_add_node has_node_def)

lemma G_put_node: "G (put_node t n nd i b) = add_node n nd (G b)"
  by (simp add: put_node_def set_id_def)

lemma id_maps_put_node:
  "id_maps (put_node t n nd i b) = (id_maps b)(t := (id_maps b t)(n \<mapsto> i))"
  by (simp add: put_node_def set_id_def)

lemma rest_put_node:
  "country_by_name (put_node t n nd i b) = country_by_name b"
  "data_of (put_node t n nd i b) = data_of b"
  "node_features (put_node t n nd i b) = node_features b"
  "hetero (put_node t n nd i b) = hetero b"
  by (simp_all add: put_node_def set_id_def)

lemma fold_node_step_edges:
  assumes "\<And>r b. G (upd r b) = G b"
  shows "edge_list (G (fold (node_step t key mk upd) (enumerate k rows) b)) = edge_list (G b)"
  using assms
  by (induction rows arbitrary: k b) (simp_all add: node_step_def G_put_node edge_list_add_node)

lemma fold_node_step_has_node:
  assumes "\<And>r b. G (upd r b) = G b"
  shows "has_node (G (fold (node_step t key mk upd) (enumerate k rows) b)) n
           = (n \<in> key ` set rows \<or> has_node (G b) n)"
  using assms
  by (induction rows arbitrary: k b)
     (auto simp: node_step_def G_put_node has_node_add_node)

lemma fold_node_step_distinct:
  assumes "\<And>r b. G (upd r b) = G b" and "distinct (map fst (node_list (G b)))"
  shows "distinct (map fst (node_list (G (fold (node_step t key mk upd) (enumerate k rows) b))))"
  using assms
  by (induction rows arbitrary: k b)
     (simp_all add: node_step_def G_put_node distinct_add_node)

lemma fold_node_step_fresh:
  assumes "\<And>r b. G (upd r b) = G b"
    and "distinct (map key rows)"
    and "\<forall>r \<in> set rows. \<not> has_node (G b) (key r)"
  shows "node_list (G (fold (node_step t key mk upd) (enumerate k rows) b))
           = node_list (G b) @ map (\<lambda>r. (key r, mk r)) rows"
  using assms
proof (induction rows arbitrary: k b)
  case Nil
  then show ?case by simp
next
  case (Cons r rows)
  let ?b = "node_step t key mk upd (k, r) b"
  have g: "G ?b = add_node (key r) (mk r) (G b)"
    by (simp add: node_step_def G_put_node Cons.prems(1))
  have fresh: "\<forall>r' \<in> set rows. \<not> has_node (G ?b) (key r')"
  proof
    fix r' assume r': "r' \<in> set rows"
    then have "key r' \<in> set (map key rows)"
      by simp
    moreover have "key r \<notin> set (map key rows)"
      using Cons.prems(2) by simp
    ultimately have "key r' \<noteq> key r"
      by metis
    then show "\<not> has_node (G ?b) (key r')"
      using Cons.prems(3) r' by (simp add: g has_node_add_node)
  qed
  have "node_list (G (fold (node_step t key mk upd) (enumerate (Suc k) rows) ?b))
          = node_list (G ?b) @ map (\<lambda>r. (key r, mk r)) rows"
    using Cons.IH [OF Cons.prems(1) _ fresh] Cons.prems(2) by simp
  then show ?case
    using Cons.prems(3) by (simp add: g node_list_add_node_new)
qed

lemma fold_node_step_other:
  assumes "\<And>r b. id_maps (upd r b) = id_maps b" and "t' \<noteq> t"
  shows "id_maps (fold (node_step t key mk upd) (enumerate k rows) b) t' = id_maps b t'"
  using assms
  by (induction rows arbitrary: k b) (simp_all add: node_step_def id_maps_put_node)

lemma fold_node_step_dom:
  assumes "\<And>r b. id_maps (upd r b) = id_maps b"
  shows "dom (id_maps (fold (node_step t key mk upd) (enumerate k rows) b) t)
           = dom (id_maps b t) \<union> key ` set rows"
  using assms
  by (induction rows arbitrary: k b) (auto simp: node_step_def id_maps_put_node)

lemma fold_node_step_absent:
  assumes "\<And>r b. id_maps (upd r b) = id_maps b" and "n \<notin> key ` set rows"
  shows "id_maps (fold (node_step t key mk upd) (enumerate k rows) b) t n = id_maps b t n"
  using assms
  by (induction rows arbitrary: k b) (auto simp: node_step_def id_maps_put_node)

lemma fold_node_step_index:
  assumes "\<And>r b. id_maps (upd r b) = id_maps b"
    and "distinct (map key rows)" and "i < length rows"
  shows "id_maps (fold (node_step t key mk upd) (enumerate k rows) b) t (key (rows ! i))
           = Some (k + i)"
  using assms
proof (induction rows arbitrary: k b i)
  case Nil
  then show ?case by simp
next
  case (Cons r rows)
  let ?b = "node_step t key mk upd (k, r) b"
  show ?case
  proof (cases i)
    case 0
    have "key r \<notin> key ` set rows"
      using Cons.prems(2) by auto
    then have "id_maps (fold (node_step t key mk upd) (enumerate (Suc k) rows) ?b) t (key r)
                 = id_maps ?b t (key r)"
      using Cons.prems(1) by (simp add: fold_node_step_absent)
    then show ?thesis
      using 0 by (simp add: node_step_def id_maps_put_node Cons.prems(1))
  next
    case (Suc j)
    then show ?thesis
      using Cons.IH [OF Cons.prems(1), of j "Suc k" ?b] Cons.prems by simp
  qed
qed

lemma fold_node_step_by_name:
  "country_by_name (fold (node_step t key mk (\<lambda>r b. b)) (enumerate k rows) b) = country_by_name b"
  by (induction rows arbitrary: k b) (simp_all add: node_step_def rest_put_node)

lemma fold_node_step_data:
  assumes "\<And>r b. data_of (upd r b) = data_of b"
  shows "data_of (fold (node_step t key mk upd) (enumerate k rows) b) = data_of b"
  using assms
  by (induction rows arbitrary: k b) (simp_all add: node_step_def rest_put_node)

lemma fold_node_step_features:
  assumes "\<And>r b. node_features (upd r b) = node_features b"
  shows "node_features (fold (node_step t key mk upd) (enumerate k rows) b) = node_features b"
  using assms
  by (induction rows arbitrary: k b) (simp_all add: node_step_def rest_put_node)

lemma supplier_step_eq:
  "supplier_step pf = node_step Supplier s_supplier_id (supplier_node pf) (\<lambda>r b. b)"
  by (simp add: supplier_step_def node_step_def)

lemma component_step_eq:
  "component_step pf = node_step Component c_component_id (component_node pf) (\<lambda>r b. b)"
  by (simp add: component_step_def node_step_def)

lemma country_step_eq:
  "country_step pf = node_step Country n_country_id (country_node pf)
     (\<lambda>r b. b\<lparr>country_by_name := (country_by_name b)(n_name r \<mapsto> n_country_id r)\<rparr>)"
  by (simp add: country_step_def node_step_def)

lemma contract_step_eq:
  "contract_step pf = node_step Contract k_contract_id (contract_node pf) (\<lambda>r b. b)"
  by (simp add: contract_step_def node_step_def)

lemma route_step_eq:
  "route_step pf = node_step Route r_route_id (route_node pf) (\<lambda>r b. b)"
  by (simp add: route_step_def node_step_def)

lemmas step_eqs =
  supplier_step_eq component_step_eq country_step_eq contract_step_eq route_step_eq

lemma nodes_init:
  "nodes pf (init d) =
     fold (route_step pf) (enumerate 0 (routes d))
       (fold (contract_step pf) (enumerate 0 (contracts d))
          (fold (country_step pf) (enumerate 0 (countries d))
             ((fold (component_step pf) (enumerate 0 (components d))
                 (fold (supplier_step pf) (enumerate 0 (suppliers d)) (init d)))
              \<lparr>country_by_name := Map.empty\<rparr>)))"
  by (simp add: nodes_def Let_def init_def)

lemma nodes_edge_list: "edge_list (G (nodes pf (init d))) = []"
  unfolding nodes_init step_eqs by (simp add: fold_node_step_edges init_def)

lemma has_node_init: "\<not> has_node (G (init d)) n"
  by (simp add: has_node_def init_def)

lemma nodes_has_node: "has_node (G (nodes pf (init d))) n = (n \<in> set (all_ids d))"
  unfolding nodes_init step_eqs
  by (auto simp: fold_node_step_has_node has_node_init all_ids_def ids_of_def)

lemma nodes_distinct: "distinct (map fst (node_list (G (nodes pf (init d)))))"
  unfolding nodes_init step_eqs by (simp add: fold_node_step_distinct init_def)

lemma nodes_data: "data_of (nodes pf (init d)) = d"
  unfolding nodes_init step_eqs by (simp add: fold_node_step_data init_def)

lemma nodes_features: "node_features (nodes pf (init d)) = Map.empty"
  unfolding nodes_init step_eqs by (simp add: fold_node_step_features init_def)

lemma nodes_dom: "dom (id_maps (nodes pf (init d)) t) = set (ids_of t d)"
  unfolding nodes_init step_eqs
  by (cases t) (simp_all add: fold_node_step_dom fold_node_step_other init_def ids_of_def)

lemma nodes_index:
  assumes "distinct (ids_of t d)" and "i < length (ids_of t d)"
  shows "id_maps (nodes pf (init d)) t (ids_of t d ! i) = Some i"
  using assms unfolding nodes_init step_eqs
  by (cases t)
     (simp_all add: fold_node_step_other ids_of_def
        fold_node_step_index [where k = 0, simplified])

lemma fold_country_by_name:
  "country_by_name
     (fold (node_step t key mk (\<lambda>r b. b\<lparr>country_by_name := (country_by_name b)(nm r \<mapsto> key r)\<rparr>))
        (enumerate k rows) b) name = Some c
   \<Longrightarrow> country_by_name b name = Some c \<or> (\<exists>r \<in> set rows. nm r = name \<and> key r = c)"
proof (induction rows arbitrary: k b)
  case Nil
  then show ?case by simp
next
  case (Cons r rows)
  let ?F = "node_step t key mk
              (\<lambda>r b. b\<lparr>country_by_name := (country_by_name b)(nm r \<mapsto> key r)\<rparr>)"
  from Cons.prems
  have "country_by_name (fold ?F (enumerate (Suc k) rows) (?F (k, r) b)) name = Some c"
    by (simp only: enumerate_simps fold_simps)
  from Cons.IH [OF this]
  have "country_by_name (?F (k, r) b) name = Some c
          \<or> (\<exists>r \<in> set rows. nm r = name \<and> key r = c)" .
  moreover have "country_by_name (?F (k, r) b) = (country_by_name b)(nm r \<mapsto> key r)"
    by (simp add: node_step_def rest_put_node)
  ultimately show ?case
    by (auto split: if_splits)
qed

lemma nodes_by_name:
  assumes "country_by_name (nodes pf (init d)) name = Some c"
  shows "\<exists>r \<in> set (countries d). n_name r = name \<and> n_country_id r = c"
proof -
  have "country_by_name
          (fold (country_step pf) (enumerate 0 (countries d))
             ((fold (component_step pf) (enumerate 0 (components d))
                 (fold (supplier_step pf) (enumerate 0 (suppliers d)) (init d)))
              \<lparr>country_by_name := Map.empty\<rparr>)) name = Some c"
    using assms unfolding nodes_init step_eqs by (simp add: fold_node_step_by_name)
  then show ?thesis
    unfolding country_step_eq by (auto dest!: fold_country_by_name)
qed

lemma nodes_by_name_has_node:
  "country_by_name (nodes pf (init d)) name = Some c \<Longrightarrow> has_node (G (nodes pf (init d))) c"
  by (auto dest!: nodes_by_name simp: nodes_has_node all_ids_def ids_of_def)

lemma nodes_node_list:
  assumes "distinct (all_ids d)"
  shows "node_list (G (nodes pf (init d))) =
           map (\<lambda>r. (s_supplier_id r, supplier_node pf r)) (suppliers d)
           @ map (\<lambda>r. (c_component_id r, component_node pf r)) (components d)
           @ map (\<lambda>r. (n_country_id r, country_node pf r)) (countries d)
           @ map (\<lambda>r. (k_contract_id r, contract_node pf r)) (contracts d)
           @ map (\<lambda>r. (r_route_id r, route_node pf r)) (routes d)"
proof -
  let ?S = "node_step Supplier s_supplier_id (supplier_node pf) (\<lambda>r b. b)"
  let ?C = "node_step Component c_component_id (component_node pf) (\<lambda>r b. b)"
  let ?N = "node_step Country n_country_id (country_node pf)
              (\<lambda>r b. b\<lparr>country_by_name := (country_by_name b)(n_name r \<mapsto> n_country_id r)\<rparr>)"
  let ?K = "node_step Contract k_contract_id (contract_node pf) (\<lambda>r b. b)"
  let ?R = "node_step Route r_route_id (route_node pf) (\<lambda>r b. b)"
  let ?b1 = "fold ?S (enumerate 0 (suppliers d)) (init d)"
  let ?b2 = "fold ?C (enumerate 0 (components d)) ?b1"
  let ?b3 = "fold ?N (enumerate 0 (countries d)) (?b2\<lparr>country_by_name := Map.empty\<rparr>)"
  let ?b4 = "fold ?K (enumerate 0 (contracts d)) ?b3"
  let ?b5 = "fold ?R (enumerate 0 (routes d)) ?b4"
  have dist: "distinct (map s_supplier_id (suppliers d))"
    "distinct (map c_component_id (components d))"
    "distinct (map n_country_id (countries d))"
    "distinct (map k_contract_id (contracts d))"
    "distinct (map r_route_id (routes d))"
    using assms by (simp_all add: all_ids_def ids_of_def)
  have h1: "\<forall>r \<in> set (suppliers d). \<not> has_node (G (init d)) (s_supplier_id r)"
    by (simp add: has_node_init)
  have h2: "\<forall>r \<in> set (components d). \<not> has_node (G ?b1) (c_component_id r)"
    using assms by (auto simp: all_ids_def ids_of_def fold_node_step_has_node has_node_init)
  have h3: "\<forall>r \<in> set (countries d).
              \<not> has_node (G (?b2\<lparr>country_by_name := Map.empty\<rparr>)) (n_country_id r)"
    using assms by (auto simp: all_ids_def ids_of_def fold_node_step_has_node has_node_init)
  have h4: "\<forall>r \<in> set (contracts d). \<not> has_node (G ?b3) (k_contract_id r)"
    using assms by (auto simp: all_ids_def ids_of_def fold_node_step_has_node has_node_init)
  have h5: "\<forall>r \<in> set (routes d). \<not> has_node (G ?b4) (r_route_id r)"
    using assms by (auto simp: all_ids_def ids_of_def fold_node_step_has_node has_node_init)
  have n1: "node_list (G ?b1) = map (\<lambda>r. (s_supplier_id r, supplier_node pf r)) (suppliers d)"
    using fold_node_step_fresh [of "\<lambda>r b. b" s_supplier_id "suppliers d" "init d", OF _ dist(1) h1]
    by (simp add: init_def)
  have n2: "node_list (G ?b2) =
              node_list (G ?b1) @ map (\<lambda>r. (c_component_id r, component_node pf r)) (components d)"
    using fold_node_step_fresh [of "\<lambda>r b. b" c_component_id "components d" ?b1, OF _ dist(2) h2]
    by simp
  have n3: "node_list (G ?b3) =
              node_list (G ?b2) @ map (\<lambda>r. (n_country_id r, country_node pf r)) (countries d)"
    using fold_node_step_fresh
      [of "\<lambda>r b. b\<lparr>country_by_name := (country_by_name b)(n_name r \<mapsto> n_country_id r)\<rparr>"
          n_country_id "countries d" "?b2\<lparr>country_by_name := Map.empty\<rparr>", OF _ dist(3) h3]
    by simp
  have n4: "node_list (G ?b4) =
              node_list (G ?b3) @ map (\<lambda>r. (k_contract_id r, contract_node pf r)) (contracts d)"
    using fold_node_step_fresh [of "\<lambda>r b. b" k_contract_id "contracts d" ?b3, OF _ dist(4) h4]
    by simp
  have n5: "node_list (G ?b5) =
              node_list (G ?b4) @ map (\<lambda>r. (r_route_id r, route_node pf r)) (routes d)"
    using fold_node_step_fresh [of "\<lambda>r b. b" r_route_id "routes d" ?b4, OF _ dist(5) h5]
    by simp
  have "nodes pf (init d) = ?b5"
    unfolding nodes_init step_eqs ..
  then show ?thesis
    by (simp only: n1 n2 n3 n4 n5 append_assoc)
qed

section \<open>Facts about the edge phase\<close>

lemma has_node_cong: "node_list g' = node_list g \<Longrightarrow> has_node g' n = has_node g n"
  by (simp add: has_node_def)

lemma add_edge_simps:
  "node_list (add_edge e g) = node_list g"
  "edge_list (add_edge e g) = edge_list g @ [e]"
  "has_node (add_edge e g) n = has_node g n"
  by (simp_all add: add_edge_def has_node_def)

lemma fold_out:
  assumes "\<And>r g. node_list (step r g) = node_list g"
    and "\<And>r g. edge_list (step r g) = edge_list g @ out g r"
    and "\<And>r g g'. node_list g' = node_list g \<Longrightarrow> out g' r = out g r"
  shows "node_list (fold step rs g) = node_list g \<and>
         edge_list (fold step rs g) = edge_list g @ concat (map (out g) rs)"
proof (induction rs arbitrary: g)
  case Nil
  show ?case by simp
next
  case (Cons r rs)
  have "out (step r g) = out g"
    using assms(1,3) by blast
  then show ?case
    using Cons [of "step r g"] assms(1,2) by simp
qed

lemma named_out_cong: "node_list g' = node_list g \<Longrightarrow> named_out g' u cn rel = named_out g u cn rel"
  by (simp add: named_out_def has_node_def split: option.splits)

lemma add_named_simps:
  "node_list (add_named u cn rel g) = node_list g"
  "edge_list (add_named u cn rel g) = edge_list g @ named_out g u cn rel"
  "has_node (add_named u cn rel g) n = has_node g n"
  by (simp_all add: add_named_def named_out_def add_edge_simps split: option.splits)

lemma located_in_step_simps:
  "node_list (located_in_step bn r g) = node_list g"
  "edge_list (located_in_step bn r g) = edge_list g @ located_in_out bn g r"
  by (simp_all add: located_in_step_def located_in_out_def Let_def add_named_simps)

lemma located_in_out_cong:
  "node_list g' = node_list g \<Longrightarrow> located_in_out bn g' r = located_in_out bn g r"
  by (simp add: located_in_out_def named_out_cong [of g' g] has_node_cong [of g' g])

lemma fold_located_in:
  "node_list (fold (located_in_step bn) rs g) = node_list g \<and>
   edge_list (fold (located_in_step bn) rs g) = edge_list g @ concat (map (located_in_out bn g) rs)"
  by (rule fold_out [where step = "located_in_step bn" and out = "located_in_out bn"],
      simp add: located_in_step_simps(1), simp add: located_in_step_simps(2), erule located_in_out_cong)

lemma contracts_step_simps:
  "node_list (contracts_step r g) = node_list g"
  "edge_list (contracts_step r g) = edge_list g @ contracts_out g r"
  by (simp_all add: contracts_step_def contracts_out_def Let_def add_edge_simps)

lemma contracts_out_cong:
  "node_list g' = node_list g \<Longrightarrow> contracts_out g' r = contracts_out g r"
  by (simp add: contracts_out_def has_node_cong [of g' g])

lemma fold_contracts:
  "node_list (fold contracts_step rs g) = node_list g \<and>
   edge_list (fold contracts_step rs g) = edge_list g @ concat (map (contracts_out g) rs)"
  by (rule fold_out [where step = contracts_step and out = contracts_out],
      simp add: contracts_step_simps(1), simp add: contracts_step_simps(2), erule contracts_out_cong)

lemma routes_step_simps:
  "node_list (routes_step bn r g) = node_list g"
  "edge_list (routes_step bn r g) = edge_list g @ routes_out bn g r"
  by (simp_all add: routes_step_def routes_out_def Let_def add_edge_simps add_named_simps
        named_out_cong [of "add_named _ _ _ g" g])

lemma routes_out_cong:
  "node_list g' = node_list g \<Longrightarrow> routes_out bn g' r = routes_out bn g r"
  by (simp add: routes_out_def named_out_cong [of g' g] has_node_cong [of g' g])

lemma fold_routes:
  "node_list (fold (routes_step bn) rs g) = node_list g \<and>
   edge_list (fold (routes_step bn) rs g) = edge_list g @ concat (map (routes_out bn g) rs)"
  by (rule fold_out [where step = "routes_step bn" and out = "routes_out bn"],
      simp add: routes_step_simps(1), simp add: routes_step_simps(2), erule routes_out_cong)

lemma co_supplier_step_simps:
  "node_list (co_supplier_step p g) = node_list g"
  "edge_list (co_supplier_step p g) = edge_list g @ co_out g p"
  by (simp_all add: co_supplier_step_def co_out_def add_edge_simps split: prod.splits)

lemma co_out_cong: "node_list g' = node_list g \<Longrightarrow> co_out g' p = co_out g p"
  by (simp add: co_out_def has_node_cong [of g' g])

lemma fold_co:
  "node_list (fold co_supplier_step rs g) = node_list g \<and>
   edge_list (fold co_supplier_step rs g) = edge_list g @ concat (map (co_out g) rs)"
  by (rule fold_out [where step = co_supplier_step and out = co_out],
      simp add: co_supplier_step_simps(1), simp add: co_supplier_step_simps(2), erule co_out_cong)

lemma trades_with_step_simps:
  "node_list (trades_with_step p g) = node_list g"
  "edge_list (trades_with_step p g) = edge_list g @ tw_out g p"
  by (simp_all add: trades_with_step_def tw_out_def add_edge_simps split: prod.splits)

lemma tw_out_cong: "node_list g' = node_list g \<Longrightarrow> tw_out g' p = tw_out g p"
  by (simp add: tw_out_def has_node_cong [of g' g])

lemma fold_tw:
  "node_list (fold trades_with_step rs g) = node_list g \<and>
   edge_list (fold trades_with_step rs g) = edge_list g @ concat (map (tw_out g) rs)"
  by (rule fold_out [where step = trades_with_step and out = tw_out],
      simp add: trades_with_step_simps(1), simp add: trades_with_step_simps(2), erule tw_out_cong)

lemma supplies_step_Inr:
  assumes "supplies_step pf pint r g = Inr g1"
  shows "node_list g1 = node_list g \<and> edge_list g1 = edge_list g @ supplies_out pf pint g r"
  using assms
  by (auto simp: supplies_step_def supplies_out_def Let_def add_edge_simps
        split: if_splits sum.splits)

lemma supplies_step_Inl:
  assumes "supplies_step pf pint r g = Inl e"
  shows "has_node g (l_supplier_id r) \<and> has_node g (l_component_id r)
         \<and> \<not> link_converts pf pint r"
  using assms
  by (auto simp: supplies_step_def link_converts_def Let_def split: if_splits sum.splits)

lemma supplies_step_ok:
  assumes "has_node g (l_supplier_id r) \<and> has_node g (l_component_id r) \<longrightarrow> link_converts pf pint r"
  shows "\<exists>g1. supplies_step pf pint r g = Inr g1"
  using assms
  by (auto simp: supplies_step_def link_converts_def Let_def split: if_splits sum.splits)

lemma supplies_out_cong:
  "node_list g' = node_list g \<Longrightarrow> supplies_out pf pint g' r = supplies_out pf pint g r"
  by (simp add: supplies_out_def has_node_cong [of g' g])

lemma try_fold_supplies_Inr:
  "try_fold (supplies_step pf pint) rs g = Inr g' \<Longrightarrow>
     node_list g' = node_list g \<and>
     edge_list g' = edge_list g @ concat (map (supplies_out pf pint g) rs)"
proof (induction rs arbitrary: g)
  case Nil
  then show ?case by simp
next
  case (Cons r rs)
  from Cons.prems obtain g1 where s: "supplies_step pf pint r g = Inr g1"
    and t: "try_fold (supplies_step pf pint) rs g1 = Inr g'"
    by (auto split: sum.splits)
  from supplies_step_Inr [OF s] have n: "node_list g1 = node_list g"
    and e: "edge_list g1 = edge_list g @ supplies_out pf pint g r"
    by simp_all
  have "supplies_out pf pint g1 = supplies_out pf pint g"
    using supplies_out_cong [OF n] by blast
  then show ?case
    using Cons.IH [OF t] n e by simp
qed

lemma try_fold_supplies_Inl:
  "try_fold (supplies_step pf pint) rs g = Inl e \<Longrightarrow>
     \<exists>r \<in> set rs. has_node g (l_supplier_id r) \<and> has_node g (l_component_id r)
        \<and> \<not> link_converts pf pint r"
proof (induction rs arbitrary: g)
  case Nil
  then show ?case by simp
next
  case (Cons r rs)
  show ?case
  proof (cases "supplies_step pf pint r g")
    case (Inl e')
    then show ?thesis
      using supplies_step_Inl [OF Inl] by simp
  next
    case (Inr g1)
    then have t: "try_fold (supplies_step pf pint) rs g1 = Inl e"
      using Cons.prems by simp
    have n: "node_list g1 = node_list g"
      using supplies_step_Inr [OF Inr] by simp
    from Cons.IH [OF t] show ?thesis
      by (auto simp: has_node_cong [OF n])
  qed
qed

lemma try_fold_supplies_ok:
  "(\<forall>r \<in> set rs. has_node g (l_supplier_id r) \<and> has_node g (l_component_id r)
       \<longrightarrow> link_converts pf pint r)
   \<Longrightarrow> \<exists>g'. try_fold (supplies_step pf pint) rs g = Inr g'"
proof (induction rs arbitrary: g)
  case Nil
  then show ?case by simp
next
  case (Cons r rs)
  from Cons.prems obtain g1 where s: "supplies_step pf pint r g = Inr g1"
    using supplies_step_ok [of g r pf pint] by auto
  have n: "node_list g1 = node_list g"
    using supplies_step_Inr [OF s] by simp
  have "\<exists>g'. try_fold (supplies_step pf pint) rs g1 = Inr g'"
    using Cons.prems by (intro Cons.IH) (simp add: has_node_cong [OF n])
  then show ?case
    using s by simp
qed

lemma table_edges_simps:
  "node_list (table_edges bn d g) = node_list g"
  "edge_list (table_edges bn d g) =
     edge_list g @ concat (map (located_in_out bn g) (suppliers d))
       @ concat (map (contracts_out g) (contracts d))
       @ concat (map (routes_out bn g) (routes d))"
proof -
  let ?g1 = "fold (located_in_step bn) (suppliers d) g"
  let ?g2 = "fold contracts_step (contracts d) ?g1"
  have n1: "node_list ?g1 = node_list g" and n2: "node_list ?g2 = node_list g"
    by (simp_all add: fold_located_in fold_contracts)
  have c: "contracts_out ?g1 = contracts_out g" "routes_out bn ?g2 = routes_out bn g"
    using contracts_out_cong [OF n1] routes_out_cong [OF n2] by blast+
  show "node_list (table_edges bn d g) = node_list g"
    by (simp add: table_edges_def fold_routes n2)
  show "edge_list (table_edges bn d g) =
     edge_list g @ concat (map (located_in_out bn g) (suppliers d))
       @ concat (map (contracts_out g) (contracts d))
       @ concat (map (routes_out bn g) (routes d))"
    by (simp add: table_edges_def fold_routes fold_contracts fold_located_in c)
qed

section \<open>Counting edges\<close>

lemma length_filter_concat:
  "length (filter P (concat (map f xs))) = sum_list (map (\<lambda>x. length (filter P (f x))) xs)"
  by (induction xs) simp_all

lemma filter_concat_empty:
  assumes "\<And>r e. r \<in> set rs \<Longrightarrow> e \<in> set (f r) \<Longrightarrow> \<not> P e"
  shows "filter P (concat (map f rs)) = []"
  using assms by (auto simp: filter_empty_conv)

lemma sum_list_indicator:
  "distinct xs \<Longrightarrow> sum_list (map (\<lambda>x. if x = a then (k::nat) else 0) xs) = (if a \<in> set xs then k else 0)"
  by (induction xs) auto

section \<open>Sets as lists\<close>

lemma set_fold_set_add: "set (fold set_add xs acc) = set acc \<union> set xs"
  by (induction xs arbitrary: acc) (auto simp: set_add_def)

lemma distinct_fold_set_add: "distinct acc \<Longrightarrow> distinct (fold set_add xs acc)"
  by (induction xs arbitrary: acc) (auto simp: set_add_def)

section \<open>The co-supplier pairs\<close>

lemma keys_setdefault_append:
  "map fst (setdefault_append k v m) =
     (if k \<in> set (map fst m) then map fst m else map fst m @ [k])"
  by (simp add: setdefault_append_def keys_merge_map del: map_map)

lemma map_of_append_value:
  "map_of (map (\<lambda>(k', vs). if k' = k then (k', vs @ [v]) else (k', vs)) m) c =
     (if c = k then map_option (\<lambda>vs. vs @ [v]) (map_of m k) else map_of m c)"
  by (induction m) auto

lemma map_of_setdefault_append:
  "map_of (setdefault_append k v m) c =
     (if c = k then Some ((case map_of m k of None \<Rightarrow> [] | Some vs \<Rightarrow> vs) @ [v])
      else map_of m c)"
proof (cases "k \<in> set (map fst m)")
  case True
  then obtain vs where "map_of m k = Some vs"
    by (metis map_of_eq_None_iff not_None_eq set_map)
  then show ?thesis
    using True by (simp add: setdefault_append_def map_of_append_value del: set_map)
next
  case False
  then have "map_of m k = None"
    by (simp add: map_of_eq_None_iff)
  then show ?thesis
    using False by (auto simp: setdefault_append_def map_add_def split: option.splits)
qed

lemma fold_setdefault:
  assumes "distinct (map fst m)"
  shows "distinct (map fst (fold (\<lambda>r. setdefault_append (l_component_id r) (l_supplier_id r)) links m))
    \<and> map_of (fold (\<lambda>r. setdefault_append (l_component_id r) (l_supplier_id r)) links m) c =
        (if c \<in> fst ` set m \<or> c \<in> l_component_id ` set links
         then Some ((case map_of m c of None \<Rightarrow> [] | Some vs \<Rightarrow> vs) @ sups_under links c)
         else None)"
  using assms
proof (induction links arbitrary: m)
  case Nil
  then show ?case
    by (auto simp: sups_under_def map_of_eq_None_iff split: option.splits)
next
  case (Cons r links)
  let ?m = "setdefault_append (l_component_id r) (l_supplier_id r) m"
  have d: "distinct (map fst ?m)"
    using Cons.prems by (simp add: keys_setdefault_append)
  have "set (map fst ?m) = insert (l_component_id r) (set (map fst m))"
    unfolding keys_setdefault_append by auto
  then have k: "fst ` set ?m = insert (l_component_id r) (fst ` set m)"
    by simp
  show ?case
    using Cons.IH [OF d] k
    by (auto simp: map_of_setdefault_append sups_under_def map_of_eq_None_iff
          split: option.splits)
qed

lemma in_comp_to_sups:
  "(c, sups) \<in> set (comp_to_sups links) \<longleftrightarrow>
     c \<in> l_component_id ` set links \<and> sups = sups_under links c"
proof -
  let ?m = "comp_to_sups links"
  have "distinct (map fst ?m)"
    and "map_of ?m c = (if c \<in> l_component_id ` set links then Some (sups_under links c) else None)"
    using fold_setdefault [of "[]" links c] by (simp_all add: comp_to_sups_def)
  then have "(c, sups) \<in> set ?m \<longleftrightarrow>
      (if c \<in> l_component_id ` set links then Some (sups_under links c) else None) = Some sups"
    using map_of_eq_Some_iff [of ?m c sups] by simp
  then show ?thesis
    by (simp split: if_splits) blast
qed

lemma count_list_map_filter:
  "count_list (map f (filter P xs)) a = length (filter (\<lambda>r. f r = a \<and> P r) xs)"
  by (induction xs) auto


lemma in_sups_under: "s \<in> set (sups_under links c) \<longleftrightarrow>
    (\<exists>r \<in> set links. l_supplier_id r = s \<and> l_component_id r = c)"
  by (auto simp: sups_under_def)

lemma count_sups_under:
  "count_list (sups_under links c) s =
     length (filter (\<lambda>r. l_supplier_id r = s \<and> l_component_id r = c) links)"
  by (simp add: sups_under_def count_list_map_filter)

lemma comparable_refl: "comparable a a"
  by (simp add: comparable_def)

lemma comparable_sym: "comparable a b \<Longrightarrow> comparable b a"
  by (auto simp: comparable_def)

lemma py_less_cases:
  "comparable a b \<Longrightarrow> a \<noteq> b \<Longrightarrow> py_less a b \<noteq> py_less b a"
  by (cases a; cases b) (auto simp: comparable_def py_less_def)

lemma py_less_irrefl: "\<not> py_less a a"
  by (cases a) (simp_all add: py_less_def)

lemma py_less_asym: "py_less a b \<Longrightarrow> \<not> py_less b a"
  by (cases a; cases b) (auto simp: py_less_def)

lemma in_pairs_of_set: "(a, b) \<in> set (pairs_of sups) \<Longrightarrow> a \<in> set sups \<and> b \<in> set sups"
  by (induction sups) auto

lemma pairs_of_distinct_elems:
  "a \<in> set sups \<Longrightarrow> b \<in> set sups \<Longrightarrow> a \<noteq> b
     \<Longrightarrow> (a, b) \<in> set (pairs_of sups) \<or> (b, a) \<in> set (pairs_of sups)"
  by (induction sups) auto

lemma pairs_of_same: "(a, a) \<in> set (pairs_of sups) \<longleftrightarrow> 2 \<le> count_list sups a"
proof (induction sups)
  case Nil
  then show ?case by simp
next
  case (Cons s sups)
  show ?case
  proof (cases "s = a")
    case True
    have "(a, a) \<in> set (pairs_of (a # sups)) \<longleftrightarrow> a \<in> set sups \<or> 2 \<le> count_list sups a"
      using Cons.IH by auto
    also have "\<dots> \<longleftrightarrow> 1 \<le> count_list sups a"
      by (metis One_nat_def Suc_le_eq count_list_0_iff le_trans neq0_conv one_le_numeral)
    finally show ?thesis
      using True by simp
  next
    case False
    then show ?thesis
      using Cons.IH by auto
  qed
qed

lemma co_add_eq:
  "co_add (a, b) acc =
     (if comparable a b then Inr (set_add (sort2 (a, b)) acc) else Inl TypeError)"
  by (simp add: co_add_def sorted_pair_def sort2_def)

lemma try_fold_co_add:
  "try_fold co_add raw acc =
     (if \<forall>p \<in> set raw. comparable (fst p) (snd p)
      then Inr (fold set_add (map sort2 raw) acc) else Inl TypeError)"
proof (induction raw arbitrary: acc)
  case Nil
  then show ?case by simp
next
  case (Cons p raw)
  obtain a b where p: "p = (a, b)"
    by (cases p)
  show ?case
    by (simp add: p Cons.IH co_add_eq)
qed

lemma in_raw_pairs:
  "(a, b) \<in> set (raw_pairs links) \<longleftrightarrow>
     (\<exists>c \<in> l_component_id ` set links. (a, b) \<in> set (pairs_of (sups_under links c)))"
proof
  assume "(a, b) \<in> set (raw_pairs links)"
  then obtain c sups where "(c, sups) \<in> set (comp_to_sups links)" "(a, b) \<in> set (pairs_of sups)"
    by (auto simp: raw_pairs_def)
  then show "\<exists>c \<in> l_component_id ` set links. (a, b) \<in> set (pairs_of (sups_under links c))"
    unfolding in_comp_to_sups by blast
next
  assume "\<exists>c \<in> l_component_id ` set links. (a, b) \<in> set (pairs_of (sups_under links c))"
  then obtain c where "c \<in> l_component_id ` set links"
    and p: "(a, b) \<in> set (pairs_of (sups_under links c))"
    by blast
  then have "(c, sups_under links c) \<in> set (comp_to_sups links)"
    unfolding in_comp_to_sups by simp
  with p show "(a, b) \<in> set (raw_pairs links)"
    unfolding raw_pairs_def by force
qed

lemma sortable_raw:
  "sortable links \<longleftrightarrow> (\<forall>p \<in> set (raw_pairs links). comparable (fst p) (snd p))"
proof
  assume s: "sortable links"
  show "\<forall>p \<in> set (raw_pairs links). comparable (fst p) (snd p)"
  proof
    fix p assume "p \<in> set (raw_pairs links)"
    then obtain c where "(fst p, snd p) \<in> set (pairs_of (sups_under links c))"
      using in_raw_pairs [of "fst p" "snd p" links] by auto
    then have "fst p \<in> set (sups_under links c)" "snd p \<in> set (sups_under links c)"
      using in_pairs_of_set by blast+
    then obtain r1 r2 where "r1 \<in> set links" "r2 \<in> set links"
      "l_supplier_id r1 = fst p" "l_supplier_id r2 = snd p"
      "l_component_id r1 = c" "l_component_id r2 = c"
      unfolding in_sups_under by blast
    then show "comparable (fst p) (snd p)"
      using s unfolding sortable_def by metis
  qed
next
  assume r: "\<forall>p \<in> set (raw_pairs links). comparable (fst p) (snd p)"
  show "sortable links"
    unfolding sortable_def
  proof (intro ballI impI)
    fix r1 r2 assume r1: "r1 \<in> set links" and r2: "r2 \<in> set links"
      and c: "l_component_id r1 = l_component_id r2"
    let ?a = "l_supplier_id r1" and ?b = "l_supplier_id r2" and ?c = "l_component_id r1"
    show "comparable ?a ?b"
    proof (cases "?a = ?b")
      case True
      then show ?thesis by (simp add: comparable_refl)
    next
      case False
      have "?a \<in> set (sups_under links ?c)" "?b \<in> set (sups_under links ?c)"
        using r1 r2 c unfolding in_sups_under by auto
      then have "(?a, ?b) \<in> set (pairs_of (sups_under links ?c))
                 \<or> (?b, ?a) \<in> set (pairs_of (sups_under links ?c))"
        using False by (rule pairs_of_distinct_elems)
      then have "(?a, ?b) \<in> set (raw_pairs links) \<or> (?b, ?a) \<in> set (raw_pairs links)"
        unfolding in_raw_pairs using r1 by blast
      then show ?thesis
        using r comparable_sym by fastforce
    qed
  qed
qed

lemma co_pairs_eq:
  "co_pairs links =
     (if sortable links then Inr (fold set_add (map sort2 (raw_pairs links)) []) else Inl TypeError)"
  unfolding co_pairs_def raw_pairs_def [symmetric] try_fold_co_add sortable_raw ..

lemma co_pairs_Inr:
  assumes "co_pairs links = Inr co"
  shows "sortable links" and "distinct co" and "set co = sort2 ` set (raw_pairs links)"
  using assms
  by (auto simp: co_pairs_eq distinct_fold_set_add set_fold_set_add split: if_splits)

lemma in_co_pairs:
  assumes "co_pairs links = Inr co"
  shows "(a, b) \<in> set co \<longleftrightarrow>
     \<not> py_less b a \<and> (if a = b then duplicate_link links a else share_component links a b)"
proof -
  note s = co_pairs_Inr [OF assms]
  have raw_cmp: "comparable u v" if "(u, v) \<in> set (raw_pairs links)" for u v
    using s(1) that unfolding sortable_raw by fastforce
  show ?thesis
  proof (cases "a = b")
    case True
    have dup: "duplicate_link links a \<longleftrightarrow>
          (\<exists>c \<in> l_component_id ` set links. 2 \<le> count_list (sups_under links c) a)"
    proof
      assume "duplicate_link links a"
      then show "\<exists>c \<in> l_component_id ` set links. 2 \<le> count_list (sups_under links c) a"
        unfolding duplicate_link_def count_sups_under by blast
    next
      assume "\<exists>c \<in> l_component_id ` set links. 2 \<le> count_list (sups_under links c) a"
      then obtain c where c: "2 \<le> count_list (sups_under links c) a"
        by blast
      then have "a \<in> set (sups_under links c)"
        by (metis count_list_0_iff not_numeral_le_zero)
      then obtain r where "r \<in> set links" "l_supplier_id r = a" "l_component_id r = c"
        unfolding in_sups_under by blast
      then show "duplicate_link links a"
        using c unfolding duplicate_link_def count_sups_under by blast
    qed
    have "(a, a) \<in> set co \<longleftrightarrow> (a, a) \<in> set (raw_pairs links)"
    proof
      assume "(a, a) \<in> set co"
      then obtain u v where uv: "(u, v) \<in> set (raw_pairs links)" "sort2 (u, v) = (a, a)"
        unfolding s(3) by force
      then have "u = a \<and> v = a"
        by (auto simp: sort2_def split: if_splits)
      then show "(a, a) \<in> set (raw_pairs links)"
        using uv by simp
    next
      assume "(a, a) \<in> set (raw_pairs links)"
      moreover have "sort2 (a, a) = (a, a)"
        by (simp add: sort2_def)
      ultimately show "(a, a) \<in> set co"
        unfolding s(3) by force
    qed
    moreover have "(a, a) \<in> set (raw_pairs links) \<longleftrightarrow>
          (\<exists>c \<in> l_component_id ` set links. 2 \<le> count_list (sups_under links c) a)"
      unfolding in_raw_pairs pairs_of_same ..
    ultimately have "(a, a) \<in> set co \<longleftrightarrow> duplicate_link links a"
      using dup by blast
    then show ?thesis
      using True by (simp add: py_less_irrefl)
  next
    case False
    have sh: "share_component links a b \<longleftrightarrow>
          (\<exists>c \<in> l_component_id ` set links.
             a \<in> set (sups_under links c) \<and> b \<in> set (sups_under links c))"
      unfolding share_component_def in_sups_under by (safe; force)
    show ?thesis
    proof
      assume "(a, b) \<in> set co"
      then obtain u v where uv: "(u, v) \<in> set (raw_pairs links)" "sort2 (u, v) = (a, b)"
        unfolding s(3) by force
      from uv(1) obtain c where c: "c \<in> l_component_id ` set links"
        "(u, v) \<in> set (pairs_of (sups_under links c))"
        unfolding in_raw_pairs by blast
      then have m: "u \<in> set (sups_under links c)" "v \<in> set (sups_under links c)"
        using in_pairs_of_set by blast+
      have "\<not> py_less b a \<and> (u = a \<and> v = b \<or> u = b \<and> v = a)"
        using uv(2) py_less_asym by (auto simp: sort2_def split: if_splits)
      then show "\<not> py_less b a \<and>
          (if a = b then duplicate_link links a else share_component links a b)"
        using False c(1) m unfolding sh by auto
    next
      assume r: "\<not> py_less b a \<and>
          (if a = b then duplicate_link links a else share_component links a b)"
      then obtain c where c: "c \<in> l_component_id ` set links"
        "a \<in> set (sups_under links c)" "b \<in> set (sups_under links c)"
        using False unfolding sh by auto
      then have "(a, b) \<in> set (pairs_of (sups_under links c))
                 \<or> (b, a) \<in> set (pairs_of (sups_under links c))"
        using False pairs_of_distinct_elems by blast
      then have raw: "(a, b) \<in> set (raw_pairs links) \<or> (b, a) \<in> set (raw_pairs links)"
        unfolding in_raw_pairs using c(1) by blast
      then have "comparable a b"
        using raw_cmp comparable_sym by blast
      then have "py_less a b"
        using py_less_cases [OF _ False] r by blast
      then have "sort2 (a, b) = (a, b)" "sort2 (b, a) = (a, b)"
        using r by (simp_all add: sort2_def)
      then show "(a, b) \<in> set co"
        unfolding s(3) using raw by force
    qed
  qed
qed

lemma derived_edges_Inr:
  assumes "derived_edges bn d g = Inr g'"
  shows "node_list g' = node_list g \<and>
     edge_list g' =
       edge_list g @ concat (map (co_out g) (projr (co_pairs (sourcing_links d))))
         @ concat (map (tw_out g) (tw_pairs bn (routes d)))"
proof -
  from assms obtain co where co: "co_pairs (sourcing_links d) = Inr co"
    and g': "g' = fold trades_with_step (tw_pairs bn (routes d)) (fold co_supplier_step co g)"
    by (auto simp: derived_edges_def split: sum.splits)
  let ?g1 = "fold co_supplier_step co g"
  have n1: "node_list ?g1 = node_list g"
    by (simp add: fold_co)
  have c: "tw_out ?g1 = tw_out g"
    using tw_out_cong [OF n1] by blast
  show ?thesis
    by (simp add: g' fold_tw fold_co c co n1)
qed

lemma derived_edges_Inl:
  "derived_edges bn d g = Inl e \<longleftrightarrow> e = TypeError \<and> \<not> sortable (sourcing_links d)"
  by (auto simp: derived_edges_def co_pairs_eq split: sum.splits if_splits)

lemma edges_Inr:
  assumes "edges pf pint b = Inr b'"
  shows "b' = b\<lparr>G := (G b)\<lparr>edge_list := edge_list (G b) @ edges_out pf pint b\<rparr>\<rparr>"
    and "sortable (sourcing_links (data_of b))"
proof -
  let ?d = "data_of b" and ?bn = "country_by_name b"
  from assms obtain g1 g3 where
    t: "try_fold (supplies_step pf pint) (sourcing_links ?d) (G b) = Inr g1"
    and g3: "derived_edges ?bn ?d (table_edges ?bn ?d g1) = Inr g3"
    and b': "b' = b\<lparr>G := g3\<rparr>"
    by (auto simp: edges_def Let_def split: sum.splits)
  let ?g2 = "table_edges ?bn ?d g1"
  have n1: "node_list g1 = node_list (G b)"
    and e1: "edge_list g1 = edge_list (G b)
               @ concat (map (supplies_out pf pint (G b)) (sourcing_links ?d))"
    using try_fold_supplies_Inr [OF t] by simp_all
  have n2: "node_list ?g2 = node_list (G b)"
    by (simp add: table_edges_simps n1)
  have c1: "located_in_out ?bn g1 = located_in_out ?bn (G b)"
    "contracts_out g1 = contracts_out (G b)" "routes_out ?bn g1 = routes_out ?bn (G b)"
    using located_in_out_cong [OF n1] contracts_out_cong [OF n1] routes_out_cong [OF n1]
    by blast+
  have c2: "co_out ?g2 = co_out (G b)" "tw_out ?g2 = tw_out (G b)"
    using co_out_cong [OF n2] tw_out_cong [OF n2] by blast+
  have "node_list g3 = node_list (G b)"
    using derived_edges_Inr [OF g3] by (simp add: n2)
  moreover have "edge_list g3 = edge_list (G b) @ edges_out pf pint b"
    using derived_edges_Inr [OF g3]
    by (simp add: table_edges_simps e1 c1 c2 edges_out_def Let_def)
  ultimately have "g3 = (G b)\<lparr>edge_list := edge_list (G b) @ edges_out pf pint b\<rparr>"
    by (intro graph.equality) simp_all
  then show "b' = b\<lparr>G := (G b)\<lparr>edge_list := edge_list (G b) @ edges_out pf pint b\<rparr>\<rparr>"
    using b' by simp
  show "sortable (sourcing_links (data_of b))"
    using g3 by (auto simp: derived_edges_def co_pairs_eq split: sum.splits if_splits)
qed

lemma edges_Inl:
  assumes "edges pf pint b = Inl e"
  shows "(\<exists>r \<in> set (sourcing_links (data_of b)).
           has_node (G b) (l_supplier_id r) \<and> has_node (G b) (l_component_id r)
           \<and> \<not> link_converts pf pint r)
         \<or> e = TypeError \<and> \<not> sortable (sourcing_links (data_of b))"
proof (cases "try_fold (supplies_step pf pint) (sourcing_links (data_of b)) (G b)")
  case (Inl e')
  then show ?thesis
    using try_fold_supplies_Inl [OF Inl] by blast
next
  case (Inr g1)
  then have "derived_edges (country_by_name b) (data_of b)
               (table_edges (country_by_name b) (data_of b) g1) = Inl e"
    using assms by (auto simp: edges_def Let_def split: sum.splits)
  then show ?thesis
    unfolding derived_edges_Inl by blast
qed

lemma edges_ok:
  assumes "\<forall>r \<in> set (sourcing_links (data_of b)).
             has_node (G b) (l_supplier_id r) \<and> has_node (G b) (l_component_id r)
               \<longrightarrow> link_converts pf pint r"
    and "sortable (sourcing_links (data_of b))"
  shows "\<exists>b'. edges pf pint b = Inr b'"
  using try_fold_supplies_ok [OF assms(1)] assms(2)
  by (auto simp: edges_def Let_def derived_edges_def co_pairs_eq)

lemma edges_unsortable:
  assumes "\<not> sortable (sourcing_links (data_of b))"
    and "\<forall>r \<in> set (sourcing_links (data_of b)).
             has_node (G b) (l_supplier_id r) \<and> has_node (G b) (l_component_id r)
               \<longrightarrow> link_converts pf pint r"
  shows "edges pf pint b = Inl TypeError"
  using try_fold_supplies_ok [OF assms(2)] assms(1)
  by (auto simp: edges_def Let_def derived_edges_def co_pairs_eq)

section \<open>Facts about features and the whole build\<close>

lemma features_step_simps:
  "G (features_step p b) = G b"
  "id_maps (features_step p b) = id_maps b"
  "country_by_name (features_step p b) = country_by_name b"
  "data_of (features_step p b) = data_of b"
  "hetero (features_step p b) = hetero b"
  by (simp_all add: features_step_def split: prod.splits)

lemma fold_features_step_simps:
  "G (fold features_step specs b) = G b"
  "id_maps (fold features_step specs b) = id_maps b"
  "country_by_name (fold features_step specs b) = country_by_name b"
  "data_of (fold features_step specs b) = data_of b"
  "hetero (fold features_step specs b) = hetero b"
  by (induction specs arbitrary: b) (simp_all add: features_step_simps)

lemma fold_features_step_absent:
  "t \<notin> fst ` set specs \<Longrightarrow> node_features (fold features_step specs b) t = node_features b t"
  by (induction specs arbitrary: b) (auto simp: features_step_def)

lemma fold_features_step_present:
  assumes "distinct (map fst specs)" and "map_of specs t = Some names"
  shows "node_features (fold features_step specs b) t =
           (if typed_nodes (G b) t = [] then node_features b t
            else Some (minmax (raw_matrix (G b) t names)))"
  using assms
proof (induction specs arbitrary: b)
  case Nil
  then show ?case by simp
next
  case (Cons p specs)
  obtain t' names' where p: "p = (t', names')"
    by (cases p)
  show ?case
  proof (cases "t' = t")
    case True
    then have a: "t \<notin> fst ` set specs" and n: "names' = names"
      using Cons.prems p by auto
    have "node_features (fold features_step specs (features_step p b)) t
            = node_features (features_step p b) t"
      using a by (rule fold_features_step_absent)
    then show ?thesis
      using True p n by (simp add: features_step_def)
  next
    case False
    then have "map_of specs t = Some names"
      using Cons.prems p by simp
    moreover have "distinct (map fst specs)"
      using Cons.prems by simp
    ultimately show ?thesis
      using Cons.IH [of "features_step p b"] False p
      by (simp add: features_step_simps) (simp add: features_step_def)
  qed
qed

lemma map_of_specs: "map_of NODE_FEATURE_SPECS t = Some (feature_spec t)"
  by (cases t) (simp_all add: feature_spec_def NODE_FEATURE_SPECS_def)

lemma distinct_specs: "distinct (map fst NODE_FEATURE_SPECS)"
  by (simp add: NODE_FEATURE_SPECS_def)

lemma features_simps:
  "G (features b) = G b"
  "id_maps (features b) = id_maps b"
  "country_by_name (features b) = country_by_name b"
  "data_of (features b) = data_of b"
  "hetero (features b) = hetero b"
  by (simp_all add: features_def fold_features_step_simps)

lemma features_node_features:
  "node_features (features b) t =
     (if typed_nodes (G b) t = [] then node_features b t
      else Some (minmax (raw_matrix (G b) t (feature_spec t))))"
  unfolding features_def
  by (rule fold_features_step_present [OF distinct_specs map_of_specs])

lemma resolved_edges_hetero:
  "resolved_edges (b\<lparr>hetero := h\<rparr>) rel st dt = resolved_edges b rel st dt"
proof -
  have "resolves (b\<lparr>hetero := h\<rparr>) rel st dt = resolves b rel st dt"
    by (simp add: resolves_def fun_eq_iff)
  then show ?thesis
    by (simp add: resolved_edges_def)
qed

lemma pyg_step_hetero: "pyg_step (b\<lparr>hetero := h\<rparr>) = pyg_step b"
  by (simp add: pyg_step_def resolved_edges_hetero fun_eq_iff)

lemma to_pyg_hetero_irrelevant: "to_pyg hp (b\<lparr>hetero := h\<rparr>) = to_pyg hp b"
  by (simp add: to_pyg_def pyg_step_hetero)

lemma build_Inr:
  assumes "build pf pint hp path_of fs = Inr b"
  shows "\<exists>d. load path_of fs = Inr d \<and> data_of b = d \<and>
           node_list (G b) = node_list (G (nodes pf (init d))) \<and>
           edge_list (G b) = edges_out pf pint (nodes pf (init d)) \<and>
           id_maps b = id_maps (nodes pf (init d)) \<and>
           country_by_name b = country_by_name (nodes pf (init d)) \<and>
           (\<forall>t. node_features b t =
              (if typed_nodes (G b) t = [] then None
               else Some (minmax (raw_matrix (G b) t (feature_spec t))))) \<and>
           hetero b = to_pyg hp b"
proof -
  from assms obtain d E where d: "load path_of fs = Inr d"
    and E: "edges pf pint (nodes pf (init d)) = Inr E"
    and b: "b = (features E)\<lparr>hetero := to_pyg hp (features E)\<rparr>"
    by (auto simp: build_def Let_def split: sum.splits)
  let ?N = "nodes pf (init d)"
  have E': "E = ?N\<lparr>G := (G ?N)\<lparr>edge_list := edges_out pf pint ?N\<rparr>\<rparr>"
    using edges_Inr(1) [OF E] by (simp add: nodes_edge_list)
  have nf: "node_features E = Map.empty"
    by (simp add: E' nodes_features)
  have "hetero b = to_pyg hp b"
    by (simp add: b to_pyg_hetero_irrelevant)
  moreover have "\<forall>t. node_features b t =
              (if typed_nodes (G b) t = [] then None
               else Some (minmax (raw_matrix (G b) t (feature_spec t))))"
    by (simp add: b features_node_features features_simps nf)
  ultimately show ?thesis
    using d by (simp add: b features_simps E' nodes_data)
qed

lemma build_has_node:
  assumes "build pf pint hp path_of fs = Inr b" and "load path_of fs = Inr d"
  shows "has_node (G b) n = (n \<in> set (all_ids d))"
proof -
  from build_Inr [OF assms(1)] assms(2)
  have "node_list (G b) = node_list (G (nodes pf (init d)))"
    by auto
  then show ?thesis
    by (simp add: has_node_cong nodes_has_node)
qed

lemma build_ok:
  assumes "load path_of fs = Inr d"
    and "\<forall>r \<in> set (sourcing_links d).
           l_supplier_id r \<in> set (all_ids d) \<and> l_component_id r \<in> set (all_ids d)
             \<longrightarrow> link_converts pf pint r"
    and "sortable (sourcing_links d)"
  shows "\<exists>b. build pf pint hp path_of fs = Inr b"
proof -
  have "\<exists>E. edges pf pint (nodes pf (init d)) = Inr E"
    using assms(2,3) by (intro edges_ok) (simp_all add: nodes_data nodes_has_node)
  then show ?thesis
    using assms(1) by (auto simp: build_def Let_def)
qed

lemma build_sortable:
  assumes "build pf pint hp path_of fs = Inr b" and "load path_of fs = Inr d"
  shows "sortable (sourcing_links d)"
proof -
  from assms obtain E where "edges pf pint (nodes pf (init d)) = Inr E"
    by (auto simp: build_def Let_def split: sum.splits)
  from edges_Inr(2) [OF this] show ?thesis
    by (simp add: nodes_data)
qed

lemma build_load_error: "load path_of fs = Inl e \<Longrightarrow> build pf pint hp path_of fs = Inl e"
  by (simp add: build_def)

lemma build_unsortable:
  assumes "load path_of fs = Inr d"
    and "\<not> sortable (sourcing_links d)"
    and "\<forall>r \<in> set (sourcing_links d).
           l_supplier_id r \<in> set (all_ids d) \<and> l_component_id r \<in> set (all_ids d)
             \<longrightarrow> link_converts pf pint r"
  shows "build pf pint hp path_of fs = Inl TypeError"
proof -
  have "edges pf pint (nodes pf (init d)) = Inl TypeError"
    using assms(2,3) by (intro edges_unsortable) (simp_all add: nodes_data nodes_has_node)
  then show ?thesis
    using assms(1) by (simp add: build_def)
qed

lemma build_Inl:
  assumes "build pf pint hp path_of fs = Inl e"
  shows "load path_of fs = Inl e \<or>
         (\<exists>d. load path_of fs = Inr d \<and>
            ((\<exists>r \<in> set (sourcing_links d).
               l_supplier_id r \<in> set (all_ids d) \<and> l_component_id r \<in> set (all_ids d)
               \<and> \<not> link_converts pf pint r)
             \<or> e = TypeError \<and> \<not> sortable (sourcing_links d)))"
proof (cases "load path_of fs")
  case (Inl e')
  then show ?thesis
    using assms by (simp add: build_def)
next
  case (Inr d)
  then have "edges pf pint (nodes pf (init d)) = Inl e"
    using assms by (auto simp: build_def Let_def split: sum.splits)
  from edges_Inl [OF this] show ?thesis
    using Inr by (simp add: nodes_data nodes_has_node)
qed

section \<open>The small data directory builds\<close>

lemma ex_load: "load ex_path ex_fs = Inr ex_data"
  by (simp add: load_def read_table_def ex_fs_def ex_data_def)

lemma ex_all_ids:
  "all_ids ex_data =
     map Text [''S1'', ''S2'', ''S3'', ''C1'', ''C2'', ''N1'', ''N2'', ''K1'', ''R1'']"
  by (simp add: all_ids_def ids_of_def ex_data_def ex_suppliers_def ex_components_def
        ex_countries_def ex_contracts_def ex_routes_def)

lemma ex_distinct: "distinct (all_ids ex_data)"
  by (simp add: ex_all_ids)

lemma ex_links_convert:
  "\<forall>r \<in> set (sourcing_links ex_data).
     l_supplier_id r \<in> set (all_ids ex_data) \<and> l_component_id r \<in> set (all_ids ex_data)
       \<longrightarrow> link_converts ex_pf ex_pint r"
  by (simp add: ex_all_ids) (simp add: ex_data_def ex_links_def link_converts_def)

lemma ex_sortable: "sortable (sourcing_links ex_data)"
  by (simp add: sortable_def ex_data_def ex_links_def comparable_def)

lemma ex_build_ok: "\<exists>b. ex_build = Inr b"
  unfolding ex_build_def by (rule build_ok [OF ex_load ex_links_convert ex_sortable])

lemma ex_build_projr: "ex_build = Inr (projr ex_build)"
proof -
  obtain b where "ex_build = Inr b"
    using ex_build_ok by blast
  then show ?thesis
    by (metis sum.sel(2))
qed

section \<open>Node materialization\<close>

lemma distinct_ids_of: "distinct (all_ids d) \<Longrightarrow> distinct (ids_of t d)"
  by (cases t) (simp_all add: all_ids_def)

text \<open>
  Claim C1. When no identifier occurs twice in the five entity tables (neither within
  a table nor across tables), a build that completes leaves exactly one node per row of
  the five tables in the graph, and the index map of every node type sends the
  identifier of row \<open>i\<close> of its table to \<open>i\<close>: the indices are the dense range from 0 to
  the row count, without duplicates, in row order.
\<close>

theorem build_nodes_dense:
  assumes "build pf pint hp path_of fs = Inr b"
    and "load path_of fs = Inr d"
    and "distinct (all_ids d)"
  shows "length (node_list (G b)) =
           length (suppliers d) + length (components d) + length (countries d)
             + length (contracts d) + length (routes d)
         \<and> (\<forall>t. dom (id_maps b t) = set (ids_of t d)
                \<and> (\<forall>i < length (ids_of t d). id_maps b t (ids_of t d ! i) = Some i)
                \<and> bij_betw (\<lambda>n. the (id_maps b t n)) (set (ids_of t d))
                     {0 ..< length (ids_of t d)})"
proof -
  let ?N = "nodes pf (init d)"
  from build_Inr [OF assms(1)] assms(2)
  have nl: "node_list (G b) = node_list (G ?N)" and im: "id_maps b = id_maps ?N"
    by auto
  have len: "length (node_list (G b)) =
           length (suppliers d) + length (components d) + length (countries d)
             + length (contracts d) + length (routes d)"
    by (simp add: nl nodes_node_list [OF assms(3)])
  have per: "dom (id_maps b t) = set (ids_of t d)
                \<and> (\<forall>i < length (ids_of t d). id_maps b t (ids_of t d ! i) = Some i)
                \<and> bij_betw (\<lambda>n. the (id_maps b t n)) (set (ids_of t d))
                     {0 ..< length (ids_of t d)}" for t
  proof -
    let ?ids = "ids_of t d"
    have dis: "distinct ?ids"
      using assms(3) by (rule distinct_ids_of)
    have idx: "\<forall>i < length ?ids. id_maps b t (?ids ! i) = Some i"
      by (simp add: im nodes_index [OF dis])
    have "bij_betw (\<lambda>n. the (id_maps b t n)) (set ?ids) {0 ..< length ?ids}"
    proof (rule bij_betw_byWitness [where f' = "\<lambda>i. ?ids ! i"])
      show "\<forall>n \<in> set ?ids. ?ids ! the (id_maps b t n) = n"
        using idx by (auto simp: in_set_conv_nth)
      show "\<forall>i \<in> {0 ..< length ?ids}. the (id_maps b t (?ids ! i)) = i"
        using idx by simp
      show "(\<lambda>n. the (id_maps b t n)) ` set ?ids \<subseteq> {0 ..< length ?ids}"
        using idx by (auto simp: in_set_conv_nth)
      show "(\<lambda>i. ?ids ! i) ` {0 ..< length ?ids} \<subseteq> set ?ids"
        by auto
    qed
    then show ?thesis
      using idx by (simp add: im nodes_dom)
  qed
  show ?thesis
    using len per by blast
qed

theorem build_nodes_dense_witness:
  "length (node_list (G (projr ex_build))) =
     length (suppliers ex_data) + length (components ex_data) + length (countries ex_data)
       + length (contracts ex_data) + length (routes ex_data)
   \<and> (\<forall>t. dom (id_maps (projr ex_build) t) = set (ids_of t ex_data)
          \<and> (\<forall>i < length (ids_of t ex_data).
                id_maps (projr ex_build) t (ids_of t ex_data ! i) = Some i)
          \<and> bij_betw (\<lambda>n. the (id_maps (projr ex_build) t n)) (set (ids_of t ex_data))
               {0 ..< length (ids_of t ex_data)})"
  by (rule build_nodes_dense [OF ex_build_projr [unfolded ex_build_def] ex_load ex_distinct,
        folded ex_build_def])

section \<open>The table loader\<close>

lemma read_table_Absent: "f = Absent \<Longrightarrow> read_table path_of t f = Inl (missing path_of t)"
  by (simp add: read_table_def)

lemma read_table_reads:
  "f \<noteq> Absent \<Longrightarrow> f \<noteq> Unreadable \<Longrightarrow> read_table path_of t f = Inr (table_of f)"
  by (cases f) (simp_all add: read_table_def)

lemma before:
  "takeWhile (\<lambda>u. u \<noteq> ''suppliers'') TABLES = []"
  "takeWhile (\<lambda>u. u \<noteq> ''components'') TABLES = [''suppliers'']"
  "takeWhile (\<lambda>u. u \<noteq> ''countries'') TABLES = [''suppliers'', ''components'']"
  "takeWhile (\<lambda>u. u \<noteq> ''contracts'') TABLES = [''suppliers'', ''components'', ''countries'']"
  "takeWhile (\<lambda>u. u \<noteq> ''routes'') TABLES =
     [''suppliers'', ''components'', ''countries'', ''contracts'']"
  "takeWhile (\<lambda>u. u \<noteq> ''sourcing_links'') TABLES =
     [''suppliers'', ''components'', ''countries'', ''contracts'', ''routes'']"
  by (simp_all add: TABLES_def)

lemma file_reads_simps:
  "file_reads fs ''suppliers'' = (f_suppliers fs \<noteq> Absent \<and> f_suppliers fs \<noteq> Unreadable)"
  "file_reads fs ''components'' = (f_components fs \<noteq> Absent \<and> f_components fs \<noteq> Unreadable)"
  "file_reads fs ''countries'' = (f_countries fs \<noteq> Absent \<and> f_countries fs \<noteq> Unreadable)"
  "file_reads fs ''contracts'' = (f_contracts fs \<noteq> Absent \<and> f_contracts fs \<noteq> Unreadable)"
  "file_reads fs ''routes'' = (f_routes fs \<noteq> Absent \<and> f_routes fs \<noteq> Unreadable)"
  "file_reads fs ''sourcing_links'' =
     (f_sourcing_links fs \<noteq> Absent \<and> f_sourcing_links fs \<noteq> Unreadable)"
  by (simp_all add: file_reads_def)

lemma file_exists_simps:
  "file_exists fs ''suppliers'' = (f_suppliers fs \<noteq> Absent)"
  "file_exists fs ''components'' = (f_components fs \<noteq> Absent)"
  "file_exists fs ''countries'' = (f_countries fs \<noteq> Absent)"
  "file_exists fs ''contracts'' = (f_contracts fs \<noteq> Absent)"
  "file_exists fs ''routes'' = (f_routes fs \<noteq> Absent)"
  "file_exists fs ''sourcing_links'' = (f_sourcing_links fs \<noteq> Absent)"
  by (simp_all add: file_exists_def)

lemma ball_TABLES:
  "(\<forall>t \<in> set TABLES. P t) \<longleftrightarrow>
     P ''suppliers'' \<and> P ''components'' \<and> P ''countries'' \<and> P ''contracts'' \<and> P ''routes''
     \<and> P ''sourcing_links''"
  by (simp add: TABLES_def)

lemma load_first_missing:
  "\<forall>t \<in> set TABLES.
     \<not> file_exists fs t \<and> (\<forall>u \<in> set (takeWhile (\<lambda>u. u \<noteq> t) TABLES). file_reads fs u)
       \<longrightarrow> load path_of fs = Inl (missing path_of t)"
  unfolding ball_TABLES before file_exists_simps
  by (simp add: file_reads_simps load_def read_table_Absent read_table_reads)

lemma load_all_read:
  assumes "\<forall>t \<in> set TABLES. file_reads fs t"
  shows "load path_of fs =
          Inr \<lparr>suppliers = table_of (f_suppliers fs), components = table_of (f_components fs),
               countries = table_of (f_countries fs), contracts = table_of (f_contracts fs),
               routes = table_of (f_routes fs),
               sourcing_links = table_of (f_sourcing_links fs)\<rparr>"
  using assms unfolding ball_TABLES
  by (simp add: file_reads_simps load_def read_table_reads)

text \<open>
  Claim C8, as amended. The claim as stated fails in two ways. When two files are
  missing, the error names the first in loading order, not each of them; and a file that
  exists need not load, since \<^verbatim>\<open>pd.read_csv\<close> raises on an empty or malformed file.
\<close>

theorem load_names_first_missing_counterexample:
  "\<not> file_exists (ex_fs\<lparr>f_suppliers := Absent, f_components := Absent\<rparr>) ''components''
   \<and> load ex_path (ex_fs\<lparr>f_suppliers := Absent, f_components := Absent\<rparr>) =
        Inl (FileNotFoundError ''Missing data/suppliers.csv. Run: python -m src.data.generator'')
   \<and> list_all (file_exists (ex_fs\<lparr>f_routes := Unreadable\<rparr>)) TABLES
   \<and> load ex_path (ex_fs\<lparr>f_routes := Unreadable\<rparr>) = Inl CsvError"
  by (simp add: file_exists_simps TABLES_def load_def read_table_def ex_fs_def missing_def
        ex_path_def)

text \<open>
  What holds: for each of the six table names, when its file does not exist and the files
  before it in loading order exist and are read, \<^verbatim>\<open>_load\<close> raises \<^verbatim>\<open>FileNotFoundError\<close>
  with the message naming that file's path and the generation command, and \<^verbatim>\<open>build\<close>
  ends with the same error (as it does with any error of the loader); when the six
  files exist and pandas reads each, loading returns the six tables, and they are the
  data of any build that completes.
\<close>

theorem load_missing_input:
  "(\<forall>t \<in> set TABLES.
      \<not> file_exists fs t \<and> (\<forall>u \<in> set (takeWhile (\<lambda>u. u \<noteq> t) TABLES). file_reads fs u)
        \<longrightarrow> load path_of fs =
              Inl (FileNotFoundError
                     (''Missing '' @ path_of (t @ ''.csv'')
                        @ ''. Run: python -m src.data.generator''))
            \<and> build pf pint hp path_of fs =
              Inl (FileNotFoundError
                     (''Missing '' @ path_of (t @ ''.csv'')
                        @ ''. Run: python -m src.data.generator'')))
   \<and> (\<forall>e. load path_of fs = Inl e \<longrightarrow> build pf pint hp path_of fs = Inl e)
   \<and> ((\<forall>t \<in> set TABLES. file_reads fs t) \<longrightarrow>
        load path_of fs =
          Inr \<lparr>suppliers = table_of (f_suppliers fs), components = table_of (f_components fs),
               countries = table_of (f_countries fs), contracts = table_of (f_contracts fs),
               routes = table_of (f_routes fs),
               sourcing_links = table_of (f_sourcing_links fs)\<rparr>
        \<and> (\<forall>b. build pf pint hp path_of fs = Inr b \<longrightarrow>
               data_of b =
                 \<lparr>suppliers = table_of (f_suppliers fs), components = table_of (f_components fs),
                  countries = table_of (f_countries fs), contracts = table_of (f_contracts fs),
                  routes = table_of (f_routes fs),
                  sourcing_links = table_of (f_sourcing_links fs)\<rparr>))"
proof (intro conjI ballI impI allI)
  fix t assume t: "t \<in> set TABLES"
    and m: "\<not> file_exists fs t \<and> (\<forall>u \<in> set (takeWhile (\<lambda>u. u \<noteq> t) TABLES). file_reads fs u)"
  show l: "load path_of fs =
              Inl (FileNotFoundError
                     (''Missing '' @ path_of (t @ ''.csv'')
                        @ ''. Run: python -m src.data.generator''))"
    using load_first_missing [of fs path_of] t m unfolding missing_def by blast
  show "build pf pint hp path_of fs =
              Inl (FileNotFoundError
                     (''Missing '' @ path_of (t @ ''.csv'')
                        @ ''. Run: python -m src.data.generator''))"
    using l by (rule build_load_error)
next
  fix e assume "load path_of fs = Inl e"
  then show "build pf pint hp path_of fs = Inl e"
    by (rule build_load_error)
next
  assume a: "\<forall>t \<in> set TABLES. file_reads fs t"
  show l: "load path_of fs =
          Inr \<lparr>suppliers = table_of (f_suppliers fs), components = table_of (f_components fs),
               countries = table_of (f_countries fs), contracts = table_of (f_contracts fs),
               routes = table_of (f_routes fs),
               sourcing_links = table_of (f_sourcing_links fs)\<rparr>"
    using a by (rule load_all_read)
  fix b assume "build pf pint hp path_of fs = Inr b"
  from build_Inr [OF this] l
  show "data_of b =
                 \<lparr>suppliers = table_of (f_suppliers fs), components = table_of (f_components fs),
                  countries = table_of (f_countries fs), contracts = table_of (f_contracts fs),
                  routes = table_of (f_routes fs),
                  sourcing_links = table_of (f_sourcing_links fs)\<rparr>"
    by auto
qed

theorem load_missing_input_witness:
  "load ex_path (ex_fs\<lparr>f_components := Absent\<rparr>) =
     Inl (FileNotFoundError ''Missing data/components.csv. Run: python -m src.data.generator'')
   \<and> build ex_pf ex_pint True ex_path (ex_fs\<lparr>f_components := Absent\<rparr>) =
     Inl (FileNotFoundError ''Missing data/components.csv. Run: python -m src.data.generator'')
   \<and> load ex_path ex_fs = Inr ex_data
   \<and> data_of (projr ex_build) = ex_data"
proof -
  let ?fs = "ex_fs\<lparr>f_components := Absent\<rparr>"
  note t1 = load_missing_input [of ?fs ex_path ex_pf ex_pint True]
  note t2 = load_missing_input [of ex_fs ex_path ex_pf ex_pint True]
  have a: "''components'' \<in> set TABLES"
    by (simp add: TABLES_def)
  have b: "\<not> file_exists ?fs ''components''
           \<and> (\<forall>u \<in> set (takeWhile (\<lambda>u. u \<noteq> ''components'') TABLES). file_reads ?fs u)"
    unfolding before by (simp add: file_exists_simps file_reads_simps ex_fs_def)
  have c: "\<forall>t \<in> set TABLES. file_reads ex_fs t"
    unfolding ball_TABLES by (simp add: file_reads_simps ex_fs_def)
  have d: "\<lparr>suppliers = table_of (f_suppliers ex_fs), components = table_of (f_components ex_fs),
            countries = table_of (f_countries ex_fs), contracts = table_of (f_contracts ex_fs),
            routes = table_of (f_routes ex_fs),
            sourcing_links = table_of (f_sourcing_links ex_fs)\<rparr> = ex_data"
    by (simp add: ex_fs_def ex_data_def)
  have e: "''Missing '' @ ex_path (''components'' @ ''.csv'')
             @ ''. Run: python -m src.data.generator''
           = ''Missing data/components.csv. Run: python -m src.data.generator''"
    by (simp add: ex_path_def)
  from t1 a b have
    "load ex_path ?fs =
       Inl (FileNotFoundError (''Missing '' @ ex_path (''components'' @ ''.csv'')
              @ ''. Run: python -m src.data.generator''))
     \<and> build ex_pf ex_pint True ex_path ?fs =
       Inl (FileNotFoundError (''Missing '' @ ex_path (''components'' @ ''.csv'')
              @ ''. Run: python -m src.data.generator''))"
    by blast
  moreover from t2 c have "load ex_path ex_fs = Inr ex_data
      \<and> (\<forall>b. build ex_pf ex_pint True ex_path ex_fs = Inr b \<longrightarrow> data_of b = ex_data)"
    unfolding d by blast
  ultimately show ?thesis
    unfolding e using ex_build_projr unfolding ex_build_def by blast
qed

section \<open>What the edge loops emit\<close>

lemma mk_edge_simps:
  "e_src (mk_edge u v rel) = u" "e_dst (mk_edge u v rel) = v"
  "e_relation (mk_edge u v rel) = rel"
  by (simp_all add: mk_edge_def)

lemma in_supplies_out:
  assumes "e \<in> set (supplies_out pf pint g r)"
  shows "e_relation e = Supplies \<and> e_src e = l_supplier_id r \<and> e_dst e = l_component_id r
         \<and> has_node g (e_src e) \<and> has_node g (e_dst e)"
  using assms by (auto simp: supplies_out_def split: if_splits)

lemma in_named_out:
  assumes "e \<in> set (named_out g u cn rel)"
  shows "e_relation e = rel \<and> e_src e = u \<and> cn = Some (e_dst e) \<and> truthy (e_dst e)
         \<and> has_node g (e_dst e)"
  using assms by (auto simp: named_out_def mk_edge_simps split: option.splits if_splits)

lemma in_located_in_out:
  assumes "e \<in> set (located_in_out bn g r)"
  shows "e_relation e = Located_in \<and> e_src e = s_supplier_id r
         \<and> bn (s_country r) = Some (e_dst e) \<and> truthy (e_dst e)
         \<and> has_node g (e_src e) \<and> has_node g (e_dst e)"
  using assms by (auto simp: located_in_out_def dest!: in_named_out split: if_splits)

lemma in_contracts_out:
  assumes "e \<in> set (contracts_out g r)"
  shows "e_src e = k_contract_id r \<and> has_node g (e_src e) \<and> has_node g (e_dst e)
         \<and> (e_relation e = Covers \<and> e_dst e = k_primary_component_id r
            \<or> e_relation e = Signed_with \<and> e_dst e = k_supplier_id r)"
  using assms by (auto simp: contracts_out_def mk_edge_simps split: if_splits)

lemma in_routes_out:
  assumes "e \<in> set (routes_out bn g r)"
  shows "e_src e = r_route_id r \<and> has_node g (e_src e) \<and> has_node g (e_dst e)
         \<and> (e_relation e = Originates_in \<and> bn (r_origin_country r) = Some (e_dst e)
                \<and> truthy (e_dst e)
            \<or> e_relation e = Delivers_to \<and> bn (r_destination_country r) = Some (e_dst e)
                \<and> truthy (e_dst e)
            \<or> e_relation e = Carries \<and> e_dst e = r_component_id r)"
  using assms
  by (auto simp: routes_out_def mk_edge_simps dest!: in_named_out split: if_splits)

lemma in_co_out:
  assumes "e \<in> set (co_out g p)"
  shows "e_relation e = Co_supplier \<and> has_node g (e_src e) \<and> has_node g (e_dst e)
         \<and> (p = (e_src e, e_dst e) \<or> p = (e_dst e, e_src e))"
  using assms by (auto simp: co_out_def mk_edge_simps split: if_splits prod.splits)

lemma in_tw_out:
  assumes "e \<in> set (tw_out g p)"
  shows "e_relation e = Trades_with \<and> has_node g (e_src e) \<and> has_node g (e_dst e)
         \<and> p = (e_src e, e_dst e)"
  using assms by (auto simp: tw_out_def mk_edge_simps split: if_splits prod.splits)

lemma in_edges_out:
  assumes "e \<in> set (edges_out pf pint b)"
  shows "(\<exists>r \<in> set (sourcing_links (data_of b)). e \<in> set (supplies_out pf pint (G b) r))
       \<or> (\<exists>r \<in> set (suppliers (data_of b)). e \<in> set (located_in_out (country_by_name b) (G b) r))
       \<or> (\<exists>r \<in> set (contracts (data_of b)). e \<in> set (contracts_out (G b) r))
       \<or> (\<exists>r \<in> set (routes (data_of b)). e \<in> set (routes_out (country_by_name b) (G b) r))
       \<or> (\<exists>p \<in> set (projr (co_pairs (sourcing_links (data_of b)))). e \<in> set (co_out (G b) p))
       \<or> (\<exists>p \<in> set (tw_pairs (country_by_name b) (routes (data_of b))). e \<in> set (tw_out (G b) p))"
  using assms by (auto simp: edges_out_def Let_def)

lemma edges_out_endpoints:
  assumes "e \<in> set (edges_out pf pint b)"
  shows "has_node (G b) (e_src e) \<and> has_node (G b) (e_dst e)"
  using in_edges_out [OF assms]
  by (auto dest!: in_supplies_out in_located_in_out in_contracts_out in_routes_out
        in_co_out in_tw_out)

section \<open>Reference safety of the edge phase\<close>

lemma edge_count_zero:
  assumes "\<forall>e \<in> set (edge_list g). has_node g (e_src e) \<and> has_node g (e_dst e)"
    and "\<not> (has_node g u \<and> has_node g v)"
  shows "edge_count g u v rel = 0"
  using assms by (auto simp: edge_count_def filter_empty_conv)

lemma build_endpoints:
  assumes "build pf pint hp path_of fs = Inr b" and "e \<in> set (edge_list (G b))"
  shows "has_node (G b) (e_src e) \<and> has_node (G b) (e_dst e)"
proof -
  from build_Inr [OF assms(1)] obtain d where
    nl: "node_list (G b) = node_list (G (nodes pf (init d)))"
    and el: "edge_list (G b) = edges_out pf pint (nodes pf (init d))"
    by blast
  have "e \<in> set (edges_out pf pint (nodes pf (init d)))"
    using assms(2) el by simp
  from edges_out_endpoints [OF this] show ?thesis
    by (simp add: has_node_cong [OF nl])
qed


lemma ex_blank_load:
  "load ex_path ex_blank_fs = Inr (ex_data\<lparr>sourcing_links := ex_blank_links\<rparr>)"
  by (simp add: load_def read_table_def ex_blank_fs_def ex_fs_def ex_data_def)

lemma ex_blank_all_ids: "all_ids (ex_data\<lparr>sourcing_links := ex_blank_links\<rparr>) = all_ids ex_data"
  by (simp add: all_ids_def ids_of_def)

text \<open>
  Claim C5, which the code breaks. A sourcing link whose \<^verbatim>\<open>supplier_id\<close> cell is empty
  refers to no supplier: the identifier is no node. Next to another link of the same
  component it makes the build raise \<^verbatim>\<open>TypeError\<close>, because the co-supplier derivation
  sorts the two identifiers before it tests whether they are nodes. (In a build that
  completes, every edge does have both endpoints among the nodes.)
\<close>

theorem build_raises_on_blank_supplier:
  "Blank \<notin> set (all_ids ex_data)
   \<and> load ex_path ex_blank_fs = Inr (ex_data\<lparr>sourcing_links := ex_blank_links\<rparr>)
   \<and> build ex_pf ex_pint True ex_path ex_blank_fs = Inl TypeError"
proof -
  let ?d = "ex_data\<lparr>sourcing_links := ex_blank_links\<rparr>"
  have a: "Blank \<notin> set (all_ids ex_data)"
    by (simp add: ex_all_ids)
  have "\<not> sortable (sourcing_links ?d)"
    by (simp add: sortable_def ex_blank_links_def comparable_def)
  moreover have "\<forall>r \<in> set (sourcing_links ?d).
           l_supplier_id r \<in> set (all_ids ?d) \<and> l_component_id r \<in> set (all_ids ?d)
             \<longrightarrow> link_converts ex_pf ex_pint r"
    by (simp add: ex_blank_links_def link_converts_def)
  ultimately have "build ex_pf ex_pint True ex_path ex_blank_fs = Inl TypeError"
    by (intro build_unsortable [OF ex_blank_load])
  then show ?thesis
    using a ex_blank_load by simp
qed

section \<open>Counting the derived edges\<close>

lemma share_component_sym: "share_component links a b \<Longrightarrow> share_component links b a"
  unfolding share_component_def by metis

lemma share_component_comparable:
  "sortable links \<Longrightarrow> share_component links a b \<Longrightarrow> comparable a b"
  unfolding sortable_def share_component_def by metis

lemma filter_edges_out_co:
  "filter (\<lambda>e. e_src e = u \<and> e_dst e = v \<and> e_relation e = Co_supplier) (edges_out pf pint b)
     = filter (\<lambda>e. e_src e = u \<and> e_dst e = v \<and> e_relation e = Co_supplier)
         (concat (map (co_out (G b)) (projr (co_pairs (sourcing_links (data_of b))))))"
proof -
  let ?P = "\<lambda>e. e_src e = u \<and> e_dst e = v \<and> e_relation e = Co_supplier"
  have "filter ?P (concat (map (supplies_out pf pint (G b)) rs)) = []" for rs
    by (rule filter_concat_empty) (auto dest!: in_supplies_out)
  moreover have "filter ?P (concat (map (located_in_out bn (G b)) rs)) = []" for rs bn
    by (rule filter_concat_empty) (auto dest!: in_located_in_out)
  moreover have "filter ?P (concat (map (contracts_out (G b)) rs)) = []" for rs
    by (rule filter_concat_empty) (auto dest!: in_contracts_out)
  moreover have "filter ?P (concat (map (routes_out bn (G b)) rs)) = []" for rs bn
    by (rule filter_concat_empty) (auto dest!: in_routes_out)
  moreover have "filter ?P (concat (map (tw_out (G b)) rs)) = []" for rs
    by (rule filter_concat_empty) (auto dest!: in_tw_out)
  ultimately show ?thesis
    by (simp add: edges_out_def Let_def)
qed

lemma length_filter_co_out:
  "length (filter (\<lambda>e. e_src e = u \<and> e_dst e = v \<and> e_relation e = Co_supplier) (co_out g p))
     = (if p = (u, v) then (if has_node g u \<and> has_node g v then 1 else 0) else 0)
       + (if p = (v, u) then (if has_node g u \<and> has_node g v then 1 else 0) else 0)"
proof (cases p)
  case (Pair s1 s2)
  let ?P = "\<lambda>e. e_src e = u \<and> e_dst e = v \<and> e_relation e = Co_supplier"
  show ?thesis
  proof (cases "has_node g s1 \<and> has_node g s2")
    case True
    then have c: "co_out g p = [mk_edge s1 s2 Co_supplier, mk_edge s2 s1 Co_supplier]"
      by (simp add: co_out_def Pair)
    have two: "length (filter Q [e1, e2]) = (if Q e1 then 1 else 0) + (if Q e2 then 1 else 0)"
      for Q :: "edge \<Rightarrow> bool" and e1 e2
      by simp
    have p1: "?P (mk_edge s1 s2 Co_supplier) = (s1 = u \<and> s2 = v)"
      and p2: "?P (mk_edge s2 s1 Co_supplier) = (s2 = u \<and> s1 = v)"
      by (simp_all add: mk_edge_simps)
    have l: "length (filter ?P (co_out g p)) =
            (if s1 = u \<and> s2 = v then 1 else 0) + (if s2 = u \<and> s1 = v then 1 else 0)"
      unfolding c two p1 p2 ..
    have r1: "(if p = (u, v) then (if has_node g u \<and> has_node g v then 1 else 0) else 0)
               = (if s1 = u \<and> s2 = v then 1 else (0::nat))"
    proof (cases "s1 = u \<and> s2 = v")
      case True
      then show ?thesis using \<open>has_node g s1 \<and> has_node g s2\<close> Pair by simp
    next
      case False
      then show ?thesis using Pair by simp
    qed
    have r2: "(if p = (v, u) then (if has_node g u \<and> has_node g v then 1 else 0) else 0)
               = (if s2 = u \<and> s1 = v then 1 else (0::nat))"
    proof (cases "s2 = u \<and> s1 = v")
      case True
      then show ?thesis using \<open>has_node g s1 \<and> has_node g s2\<close> Pair by simp
    next
      case False
      then show ?thesis using Pair by auto
    qed
    show ?thesis
      unfolding l r1 r2 ..
  next
    case False
    then have c: "co_out g p = []"
      by (simp add: co_out_def Pair)
    have "\<not> (p = (u, v) \<and> has_node g u \<and> has_node g v)"
      using False Pair by auto
    then have z1: "(if p = (u, v) then (if has_node g u \<and> has_node g v then 1 else 0) else 0)
                    = (0::nat)"
      by auto
    have "\<not> (p = (v, u) \<and> has_node g u \<and> has_node g v)"
      using False Pair by auto
    then have z2: "(if p = (v, u) then (if has_node g u \<and> has_node g v then 1 else 0) else 0)
                    = (0::nat)"
      by auto
    show ?thesis
      unfolding c z1 z2 by simp
  qed
qed

lemma co_count:
  assumes "distinct co"
  shows "length (filter (\<lambda>e. e_src e = u \<and> e_dst e = v \<and> e_relation e = Co_supplier)
                   (concat (map (co_out g) co)))
     = (if has_node g u \<and> has_node g v
        then (if (u, v) \<in> set co then 1 else 0) + (if (v, u) \<in> set co then 1 else 0)
        else 0)"
proof -
  let ?k = "if has_node g u \<and> has_node g v then 1 else 0 :: nat"
  have "length (filter (\<lambda>e. e_src e = u \<and> e_dst e = v \<and> e_relation e = Co_supplier)
                   (concat (map (co_out g) co)))
        = sum_list (map (\<lambda>p. if p = (u, v) then ?k else 0) co)
          + sum_list (map (\<lambda>p. if p = (v, u) then ?k else 0) co)"
    unfolding length_filter_concat length_filter_co_out by (simp add: sum_list_addf)
  also have "\<dots> = (if (u, v) \<in> set co then ?k else 0) + (if (v, u) \<in> set co then ?k else 0)"
    using assms by (simp only: sum_list_indicator)
  finally show ?thesis
    by simp
qed

lemma build_co_count:
  assumes "build pf pint hp path_of fs = Inr b" and "load path_of fs = Inr d"
  shows "edge_count (G b) u v Co_supplier =
     (if has_node (G b) u \<and> has_node (G b) v
      then (if \<not> py_less v u
               \<and> (if u = v then duplicate_link (sourcing_links d) u
                   else share_component (sourcing_links d) u v) then 1 else 0)
           + (if \<not> py_less u v
               \<and> (if v = u then duplicate_link (sourcing_links d) v
                   else share_component (sourcing_links d) v u) then 1 else 0)
      else 0)"
proof -
  let ?N = "nodes pf (init d)"
  from build_Inr [OF assms(1)] assms(2)
  have nl: "node_list (G b) = node_list (G ?N)"
    and el: "edge_list (G b) = edges_out pf pint ?N"
    by auto
  have "sortable (sourcing_links d)"
    using assms by (rule build_sortable)
  then obtain co where co: "co_pairs (sourcing_links d) = Inr co"
    by (simp add: co_pairs_eq)
  have h: "has_node (G ?N) = has_node (G b)"
    using has_node_cong [OF nl] by auto
  have "edge_count (G b) u v Co_supplier =
          length (filter (\<lambda>e. e_src e = u \<and> e_dst e = v \<and> e_relation e = Co_supplier)
                   (concat (map (co_out (G ?N)) co)))"
    by (simp add: edge_count_def el filter_edges_out_co nodes_data co)
  also have "\<dots> = (if has_node (G b) u \<and> has_node (G b) v
        then (if (u, v) \<in> set co then 1 else 0) + (if (v, u) \<in> set co then 1 else 0)
        else 0)"
    using co_count [OF co_pairs_Inr(2) [OF co]] by (simp add: h)
  finally show ?thesis
    by (simp only: in_co_pairs [OF co])
qed

section \<open>Co-supplier edges\<close>

text \<open>
  Claim C3. In the graph of a completed build, two distinct identifiers that are both
  nodes and are both named as supplier by sourcing links of one component carry exactly
  one co_supplier edge in each direction, however many components they share; no other
  pair of distinct identifiers carries a co_supplier edge. Hence the co_supplier edges
  from A to B are as many as those from B to A.
\<close>

theorem co_supplier_both_directions:
  assumes "build pf pint hp path_of fs = Inr b" and "load path_of fs = Inr d"
  shows "(\<forall>A B. A \<noteq> B \<longrightarrow>
            edge_count (G b) A B Co_supplier =
              (if has_node (G b) A \<and> has_node (G b) B \<and> share_component (sourcing_links d) A B
               then 1 else 0))
         \<and> (\<forall>A B. edge_count (G b) A B Co_supplier = edge_count (G b) B A Co_supplier)"
proof (intro conjI allI impI)
  fix A B :: ident
  assume ne: "A \<noteq> B"
  let ?l = "sourcing_links d"
  note c = build_co_count [OF assms, of A B]
  have s: "sortable ?l"
    using assms by (rule build_sortable)
  show "edge_count (G b) A B Co_supplier =
          (if has_node (G b) A \<and> has_node (G b) B \<and> share_component ?l A B then 1 else 0)"
  proof (cases "share_component ?l A B")
    case True
    then have "share_component ?l B A"
      by (rule share_component_sym)
    moreover have "py_less A B \<noteq> py_less B A"
      using share_component_comparable [OF s True] ne by (rule py_less_cases)
    ultimately show ?thesis
      using c True ne by auto
  next
    case False
    then have "\<not> share_component ?l B A"
      using share_component_sym by blast
    then show ?thesis
      using c False ne by auto
  qed
next
  fix A B :: ident
  show "edge_count (G b) A B Co_supplier = edge_count (G b) B A Co_supplier"
    unfolding build_co_count [OF assms, of A B] build_co_count [OF assms, of B A]
    by (simp add: conj_commute add.commute)
qed

lemma ex_has_node: "has_node (G (projr ex_build)) n = (n \<in> set (all_ids ex_data))"
  using build_has_node [OF ex_build_projr [unfolded ex_build_def] ex_load]
  by (simp add: ex_build_def)

theorem co_supplier_both_directions_witness:
  "edge_count (G (projr ex_build)) (Text ''S1'') (Text ''S2'') Co_supplier = 1
   \<and> edge_count (G (projr ex_build)) (Text ''S2'') (Text ''S1'') Co_supplier = 1"
proof -
  note t = co_supplier_both_directions [OF ex_build_projr [unfolded ex_build_def] ex_load,
      folded ex_build_def]
  have h: "has_node (G (projr ex_build)) (Text ''S1'')" "has_node (G (projr ex_build)) (Text ''S2'')"
    by (simp_all add: ex_has_node ex_all_ids)
  have sh: "share_component (sourcing_links ex_data) (Text ''S1'') (Text ''S2'')"
    by (simp add: share_component_def ex_data_def ex_links_def)
  have ne: "Text ''S1'' \<noteq> Text ''S2''"
    by simp
  have "edge_count (G (projr ex_build)) (Text ''S1'') (Text ''S2'') Co_supplier = 1"
    using t [THEN conjunct1, rule_format, OF ne] h sh by simp
  moreover have "edge_count (G (projr ex_build)) (Text ''S2'') (Text ''S1'') Co_supplier
                  = edge_count (G (projr ex_build)) (Text ''S1'') (Text ''S2'') Co_supplier"
    using t [THEN conjunct2, rule_format, of "Text ''S2''" "Text ''S1''"] .
  ultimately show ?thesis
    by simp
qed

text \<open>
  Claim C10. When two sourcing links pair the same supplier with the same component,
  the derivation holds the pair of that supplier with itself, and in a completed build
  the supplier, if it is a node, carries exactly two co_supplier edges to itself; a
  node without such a double link carries none.
\<close>

theorem co_supplier_self_loops:
  assumes "build pf pint hp path_of fs = Inr b" and "load path_of fs = Inr d"
  shows "\<forall>s. ((s, s) \<in> set (projr (co_pairs (sourcing_links d)))
                \<longleftrightarrow> duplicate_link (sourcing_links d) s)
            \<and> edge_count (G b) s s Co_supplier =
                (if has_node (G b) s \<and> duplicate_link (sourcing_links d) s then 2 else 0)"
proof
  fix s
  have "sortable (sourcing_links d)"
    using assms by (rule build_sortable)
  then obtain co where co: "co_pairs (sourcing_links d) = Inr co"
    by (simp add: co_pairs_eq)
  have "(s, s) \<in> set (projr (co_pairs (sourcing_links d)))
          \<longleftrightarrow> duplicate_link (sourcing_links d) s"
    using in_co_pairs [OF co, of s s] by (simp add: co py_less_irrefl)
  moreover have "edge_count (G b) s s Co_supplier =
                (if has_node (G b) s \<and> duplicate_link (sourcing_links d) s then 2 else 0)"
    unfolding build_co_count [OF assms, of s s] by (simp add: py_less_irrefl)
  ultimately show "((s, s) \<in> set (projr (co_pairs (sourcing_links d)))
                \<longleftrightarrow> duplicate_link (sourcing_links d) s)
            \<and> edge_count (G b) s s Co_supplier =
                (if has_node (G b) s \<and> duplicate_link (sourcing_links d) s then 2 else 0)"
    by blast
qed

lemma ex_dup_load: "load ex_path ex_dup_fs = Inr (ex_data\<lparr>sourcing_links := ex_dup_links\<rparr>)"
  by (simp add: load_def read_table_def ex_dup_fs_def ex_fs_def ex_data_def)

lemma ex_dup_all_ids: "all_ids (ex_data\<lparr>sourcing_links := ex_dup_links\<rparr>) = all_ids ex_data"
  by (simp add: all_ids_def ids_of_def)

lemma ex_dup_build_projr: "ex_dup_build = Inr (projr ex_dup_build)"
proof -
  have "\<exists>b. ex_dup_build = Inr b"
    unfolding ex_dup_build_def
    by (rule build_ok [OF ex_dup_load])
       (simp_all add: ex_dup_links_def link_converts_def sortable_def comparable_def)
  then show ?thesis
    by (metis sum.sel(2))
qed

theorem co_supplier_self_loops_witness:
  "duplicate_link ex_dup_links (Text ''S1'')
   \<and> edge_count (G (projr ex_dup_build)) (Text ''S1'') (Text ''S1'') Co_supplier = 2"
proof -
  note b = ex_dup_build_projr [unfolded ex_dup_build_def]
  note t = co_supplier_self_loops [OF b ex_dup_load, folded ex_dup_build_def]
  have h: "has_node (G (projr ex_dup_build)) (Text ''S1'')"
    using build_has_node [OF b ex_dup_load]
    by (simp add: ex_dup_build_def ex_dup_all_ids ex_all_ids)
  have dl: "duplicate_link ex_dup_links (Text ''S1'')"
    by (simp add: duplicate_link_def ex_dup_links_def)
  show ?thesis
    using t h dl by simp
qed

section \<open>Trade edges\<close>

lemma fold_country_by_name_eq:
  "country_by_name
     (fold (node_step t key mk (\<lambda>r b. b\<lparr>country_by_name := (country_by_name b)(nm r \<mapsto> key r)\<rparr>))
        (enumerate k rows) b)
   = country_by_name b ++ map_of (rev (map (\<lambda>r. (nm r, key r)) rows))"
proof (induction rows arbitrary: k b)
  case Nil
  then show ?case by simp
next
  case (Cons r rows)
  let ?F = "node_step t key mk
              (\<lambda>r b. b\<lparr>country_by_name := (country_by_name b)(nm r \<mapsto> key r)\<rparr>)"
  have s: "country_by_name (?F (k, r) b) = (country_by_name b)(nm r \<mapsto> key r)"
    by (simp add: node_step_def rest_put_node)
  have "country_by_name (fold ?F (enumerate k (r # rows)) b)
          = country_by_name (fold ?F (enumerate (Suc k) rows) (?F (k, r) b))"
    by (simp only: enumerate_simps fold_simps)
  also have "\<dots> = (country_by_name b)(nm r \<mapsto> key r)
                     ++ map_of (rev (map (\<lambda>r. (nm r, key r)) rows))"
    unfolding Cons.IH s ..
  also have "\<dots> = country_by_name b ++ map_of (rev (map (\<lambda>r. (nm r, key r)) (r # rows)))"
    by (rule ext) (simp add: map_add_def split: option.splits)
  finally show ?case .
qed

lemma nodes_by_name_eq: "country_by_name (nodes pf (init d)) = name_index (countries d)"
proof -
  have "country_by_name (nodes pf (init d)) =
          country_by_name
            (fold (country_step pf) (enumerate 0 (countries d))
               ((fold (component_step pf) (enumerate 0 (components d))
                   (fold (supplier_step pf) (enumerate 0 (suppliers d)) (init d)))
                \<lparr>country_by_name := Map.empty\<rparr>))"
    unfolding nodes_init step_eqs by (simp add: fold_node_step_by_name)
  then show ?thesis
    unfolding country_step_eq fold_country_by_name_eq by (simp add: name_index_def)
qed

lemma fold_tw_add:
  "set (fold (tw_add bn) rs acc) = set acc \<union> {(c1, c2). observed bn rs c1 c2}
   \<and> (distinct acc \<longrightarrow> distinct (fold (tw_add bn) rs acc))"
proof (induction rs arbitrary: acc)
  case Nil
  then show ?case by (simp add: observed_def)
next
  case (Cons r rs)
  have o: "observed bn (r # rs) c1 c2 \<longleftrightarrow>
      (bn (r_origin_country r) = Some c1 \<and> bn (r_destination_country r) = Some c2
         \<and> truthy c1 \<and> truthy c2) \<or> observed bn rs c1 c2" for c1 c2
    by (auto simp: observed_def)
  have s: "set (tw_add bn r acc) = set acc \<union>
      {(c1, c2). bn (r_origin_country r) = Some c1 \<and> bn (r_destination_country r) = Some c2
         \<and> truthy c1 \<and> truthy c2}"
    by (auto simp: tw_add_def set_add_def split: option.splits)
  have d: "distinct acc \<longrightarrow> distinct (tw_add bn r acc)"
    by (auto simp: tw_add_def set_add_def split: option.splits)
  show ?case
    using Cons.IH [of "tw_add bn r acc"] d unfolding o s by auto
qed

lemma tw_pairs_simps:
  "(c1, c2) \<in> set (tw_pairs bn rs) \<longleftrightarrow> observed bn rs c1 c2"
  "distinct (tw_pairs bn rs)"
  using fold_tw_add [of bn rs "[]"] by (auto simp: tw_pairs_def)

lemma filter_edges_out_tw:
  "filter (\<lambda>e. e_src e = u \<and> e_dst e = v \<and> e_relation e = Trades_with) (edges_out pf pint b)
     = filter (\<lambda>e. e_src e = u \<and> e_dst e = v \<and> e_relation e = Trades_with)
         (concat (map (tw_out (G b)) (tw_pairs (country_by_name b) (routes (data_of b)))))"
proof -
  let ?P = "\<lambda>e. e_src e = u \<and> e_dst e = v \<and> e_relation e = Trades_with"
  have "filter ?P (concat (map (supplies_out pf pint (G b)) rs)) = []" for rs
    by (rule filter_concat_empty) (auto dest!: in_supplies_out)
  moreover have "filter ?P (concat (map (located_in_out bn (G b)) rs)) = []" for rs bn
    by (rule filter_concat_empty) (auto dest!: in_located_in_out)
  moreover have "filter ?P (concat (map (contracts_out (G b)) rs)) = []" for rs
    by (rule filter_concat_empty) (auto dest!: in_contracts_out)
  moreover have "filter ?P (concat (map (routes_out bn (G b)) rs)) = []" for rs bn
    by (rule filter_concat_empty) (auto dest!: in_routes_out)
  moreover have "filter ?P (concat (map (co_out (G b)) rs)) = []" for rs
    by (rule filter_concat_empty) (auto dest!: in_co_out)
  ultimately show ?thesis
    by (simp add: edges_out_def Let_def)
qed

lemma length_filter_tw_out:
  "length (filter (\<lambda>e. e_src e = u \<and> e_dst e = v \<and> e_relation e = Trades_with) (tw_out g p))
     = (if p = (u, v) then (if has_node g u \<and> has_node g v then 1 else 0) else 0)"
proof (cases p)
  case (Pair c1 c2)
  let ?P = "\<lambda>e. e_src e = u \<and> e_dst e = v \<and> e_relation e = Trades_with"
  have p1: "?P (mk_edge c1 c2 Trades_with) = (c1 = u \<and> c2 = v)"
    by (simp add: mk_edge_simps)
  show ?thesis
  proof (cases "has_node g c1 \<and> has_node g c2")
    case True
    then have c: "tw_out g (c1, c2) = [mk_edge c1 c2 Trades_with]"
      by (simp add: tw_out_def)
    show ?thesis
    proof (cases "c1 = u \<and> c2 = v")
      case True
      then show ?thesis
        using \<open>has_node g c1 \<and> has_node g c2\<close> unfolding Pair c by (simp add: mk_edge_simps)
    next
      case False
      then show ?thesis
        unfolding Pair c by (simp add: p1)
    qed
  next
    case False
    then have c: "tw_out g (c1, c2) = []"
      by (simp add: tw_out_def)
    have "\<not> (p = (u, v) \<and> has_node g u \<and> has_node g v)"
      using False Pair by auto
    then show ?thesis
      unfolding Pair c by auto
  qed
qed

lemma tw_count:
  assumes "distinct tw"
  shows "length (filter (\<lambda>e. e_src e = u \<and> e_dst e = v \<and> e_relation e = Trades_with)
                   (concat (map (tw_out g) tw)))
     = (if (u, v) \<in> set tw \<and> has_node g u \<and> has_node g v then 1 else 0)"
proof -
  let ?k = "if has_node g u \<and> has_node g v then 1 else 0 :: nat"
  have "length (filter (\<lambda>e. e_src e = u \<and> e_dst e = v \<and> e_relation e = Trades_with)
                   (concat (map (tw_out g) tw)))
        = sum_list (map (\<lambda>p. if p = (u, v) then ?k else 0) tw)"
    unfolding length_filter_concat length_filter_tw_out ..
  also have "\<dots> = (if (u, v) \<in> set tw then ?k else 0)"
    using assms by (simp only: sum_list_indicator)
  finally show ?thesis
    by simp
qed

lemma build_tw_count:
  assumes "build pf pint hp path_of fs = Inr b" and "load path_of fs = Inr d"
  shows "edge_count (G b) c1 c2 Trades_with =
     (if observed (name_index (countries d)) (routes d) c1 c2 then 1 else 0)"
proof -
  let ?N = "nodes pf (init d)"
  let ?bn = "country_by_name ?N"
  from build_Inr [OF assms(1)] assms(2)
  have el: "edge_list (G b) = edges_out pf pint ?N"
    by auto
  have n: "observed ?bn (routes d) c1 c2 \<Longrightarrow> has_node (G ?N) c1 \<and> has_node (G ?N) c2"
    unfolding observed_def by (blast intro: nodes_by_name_has_node)
  have "edge_count (G b) c1 c2 Trades_with =
          length (filter (\<lambda>e. e_src e = c1 \<and> e_dst e = c2 \<and> e_relation e = Trades_with)
                   (concat (map (tw_out (G ?N)) (tw_pairs ?bn (routes d)))))"
    by (simp add: edge_count_def el filter_edges_out_tw nodes_data)
  also have "\<dots> = (if (c1, c2) \<in> set (tw_pairs ?bn (routes d))
                        \<and> has_node (G ?N) c1 \<and> has_node (G ?N) c2 then 1 else 0)"
    by (rule tw_count) (rule tw_pairs_simps(2))
  also have "\<dots> = (if observed ?bn (routes d) c1 c2 then 1 else 0)"
    using n by (auto simp: tw_pairs_simps(1))
  finally show ?thesis
    by (simp only: nodes_by_name_eq)
qed

text \<open>
  Claim C4. In a completed build the name map sends a country name to the identifier
  of the last row of the countries table with that name, and for every ordered pair
  of identifiers (c1, c2) the graph holds exactly one trades_with edge from c1 to c2
  when some route has an origin name resolving to c1 and a destination name resolving
  to c2 (both identifiers non-empty), and none otherwise, however many routes give the
  pair. The pairs are ordered: the edge from c2 to c1 is counted on its own, so a route
  in each direction gives both edges and a route in one direction gives one.
\<close>

theorem trades_with_per_ordered_pair:
  assumes "build pf pint hp path_of fs = Inr b" and "load path_of fs = Inr d"
  shows "country_by_name b = name_index (countries d)
         \<and> (\<forall>c1 c2. edge_count (G b) c1 c2 Trades_with =
               (if observed (name_index (countries d)) (routes d) c1 c2 then 1 else 0))"
proof -
  from build_Inr [OF assms(1)] assms(2)
  have "country_by_name b = country_by_name (nodes pf (init d))"
    by auto
  then have "country_by_name b = name_index (countries d)"
    by (simp only: nodes_by_name_eq)
  moreover have "\<forall>c1 c2. edge_count (G b) c1 c2 Trades_with =
               (if observed (name_index (countries d)) (routes d) c1 c2 then 1 else 0)"
    using build_tw_count [OF assms] by blast
  ultimately show ?thesis
    by blast
qed

theorem trades_with_per_ordered_pair_witness:
  "country_by_name (projr ex_build) (Text ''Y'') = Some (Text ''N2'')
   \<and> edge_count (G (projr ex_build)) (Text ''N1'') (Text ''N2'') Trades_with = 1
   \<and> edge_count (G (projr ex_build)) (Text ''N2'') (Text ''N1'') Trades_with = 0"
proof -
  note t = trades_with_per_ordered_pair [OF ex_build_projr [unfolded ex_build_def] ex_load,
      folded ex_build_def]
  have i: "name_index (countries ex_data) =
             [Text ''X'' \<mapsto> Text ''N1'', Text ''Y'' \<mapsto> Text ''N2'']"
    by (simp add: name_index_def ex_data_def ex_countries_def)
  have o1: "observed (name_index (countries ex_data)) (routes ex_data) (Text ''N1'') (Text ''N2'')"
    unfolding i by (simp add: observed_def ex_data_def ex_routes_def truthy_def)
  have o2: "\<not> observed (name_index (countries ex_data)) (routes ex_data) (Text ''N2'') (Text ''N1'')"
    unfolding i by (simp add: observed_def ex_data_def ex_routes_def truthy_def)
  have "country_by_name (projr ex_build) (Text ''Y'') = Some (Text ''N2'')"
    using t [THEN conjunct1] i by simp
  moreover have "edge_count (G (projr ex_build)) (Text ''N1'') (Text ''N2'') Trades_with = 1"
    using t [THEN conjunct2, rule_format, of "Text ''N1''" "Text ''N2''"] o1 by simp
  moreover have "edge_count (G (projr ex_build)) (Text ''N2'') (Text ''N1'') Trades_with = 0"
    using t [THEN conjunct2, rule_format, of "Text ''N2''" "Text ''N1''"] o2 by simp
  ultimately show ?thesis
    by blast
qed

end
